theory Spec2Isabelle
  imports Main "HOL-Library.Multiset" "HOL-Library.Char_ord" "HOL-Library.List_Lexorder"
    "HOL-Library.AList" "HOL-Library.Code_Target_Nat"
begin

section \<open>Common JavaScript notions\<close>

text \<open>
  A handler either runs to its end or stops at an uncaught TypeError (a method call on
  \<open>null\<close> or on \<open>false\<close>).  The assignments made before the throw stay in
  effect, so both outcomes carry the state they leave behind.
\<close>

datatype 'a outcome = Returned 'a | Thrown 'a

fun state_of :: "'a outcome \<Rightarrow> 'a" where
  "state_of (Returned s) = s"
| "state_of (Thrown s) = s"

text \<open>\<open>Number.prototype.toString()\<close> on a non-negative integer: its decimal digits.\<close>

definition digit_char :: "nat \<Rightarrow> char" where
  "digit_char d = ''0123456789'' ! d"

fun to_string :: "nat \<Rightarrow> string" where
  "to_string n = (if n < 10 then [digit_char n] else to_string (n div 10) @ [digit_char (n mod 10)])"

declare to_string.simps [simp del]

section \<open>Collaborative drawing session (multi\_draw.js)\<close>

text \<open>
  The canvas raster is the list of line segments drawn on it since it was last cleared;
  \<open>canvas.toDataURL()\<close> is identified with that raster.  The peer's canvas holds the
  images drawn on it since it was last cleared.
\<close>

type_synonym raster = "(int \<times> int \<times> int \<times> int) list"

record user_status =
  submitted :: bool
  result :: bool
  user_id :: int
  ready :: bool
  points :: int

text \<open>The messages the page emits; \<open>Join\<close> is the \<open>join\<close> event, the others are
  \<open>message\<close> events named by their \<open>EventType\<close>.  The \<open>image_data\<close> field of
  \<open>image_submit\<close> is the JSON text of the snapshot object; the model carries the object
  that text decodes to, its keys in the order \<open>JSON.stringify\<close> writes them.\<close>

datatype out_msg =
    Check_allowed
  | Connected
  | Join int int
  | Waiting int int
  | Image_submit int "(string \<times> raster) list" int int
  | User_ready int int bool int
  | Leave_room int

record page =
  initialised :: bool
  listeners :: nat
  drawing_active :: bool
  prevX :: int
  currX :: int
  prevY :: int
  currY :: int
  snapshots :: "(string \<times> raster) list"
  strokeNum :: nat
  waiting :: bool
  room :: int
  own_id :: int
  yourself :: user_status
  other_user :: user_status
  kana :: string
  sound :: string
  sound_num :: int
  offsetLeft :: int
  offsetTop :: int
  drawing_canvas :: raster
  drawing_canvas_bg :: string
  other_canvas :: "raster list"
  other_canvas_bg :: string
  other_canvas_display :: string
  other_loading :: "raster list"
  clr_display :: string
  submit_display :: string
  ready_display :: string
  ready_message_display :: string
  overlay_display :: string
  not_allowed_display :: string
  other_user_html :: string
  you_points_html :: string
  other_points_html :: string
  draw_statement_html :: string
  emitted :: "out_msg list"


text \<open>The page as the script's top-level declarations leave it.  The background and the
  display the markup gives the elements, and the offset of the canvas, are parameters.\<close>

definition new_status :: user_status where
  "new_status = \<lparr>submitted = False, result = False, user_id = 0, ready = False, points = 0\<rparr>"

definition page0 :: "string \<Rightarrow> string \<Rightarrow> int \<Rightarrow> int \<Rightarrow> page" where
  "page0 bg d ol ot =
     \<lparr>initialised = False, listeners = 0, drawing_active = False, prevX = 0, currX = 0, prevY = 0, currY = 0,
      snapshots = [], strokeNum = 0, waiting = True, room = 0, own_id = 0,
      yourself = new_status, other_user = new_status, kana = [], sound = [], sound_num = 0,
      offsetLeft = ol, offsetTop = ot,
      drawing_canvas = [], drawing_canvas_bg = bg, other_canvas = [], other_canvas_bg = bg,
      other_canvas_display = d, other_loading = [], clr_display = d, submit_display = d,
      ready_display = d, ready_message_display = d, overlay_display = d,
      not_allowed_display = d, other_user_html = [], you_points_html = [],
      other_points_html = [], draw_statement_html = [], emitted = []\<rparr>"

definition emit :: "out_msg \<Rightarrow> page \<Rightarrow> page" where
  "emit m s = s\<lparr>emitted := emitted s @ [m]\<rparr>"

text \<open>String form of a number that is an integer.\<close>

definition int_string :: "int \<Rightarrow> string" where
  "int_string i = (if i < 0 then CHR ''-'' # to_string (nat (- i)) else to_string (nat i))"

definition connect :: "page \<Rightarrow> page" where
  "connect s = emit Connected (emit Check_allowed s)"

definition allowed_check :: "bool \<Rightarrow> page \<Rightarrow> page" where
  "allowed_check allowed s =
     (if allowed = False then s\<lparr>not_allowed_display := ''block''\<rparr> else s)"

definition info :: "int \<Rightarrow> int \<Rightarrow> page \<Rightarrow> page" where
  "info r u s =
     (let s1 = s\<lparr>room := r, own_id := u\<rparr>;
          s2 = emit (Join (own_id s1) (room s1)) s1;
          s3 = s2\<lparr>yourself := (yourself s2)\<lparr>user_id := own_id s2\<rparr>\<rparr>
      in emit (Waiting (own_id s3) (room s3)) s3)"

text \<open>\<open>recv_img\<close>: the image starts loading; its \<open>onload\<close> callback, which draws it
  on the peer canvas, runs later as an event of its own (\<open>img_onload\<close>).\<close>

definition recv_img :: "raster \<Rightarrow> page \<Rightarrow> page" where
  "recv_img img s =
     (let s1 = s\<lparr>other_user := (other_user s)\<lparr>submitted := True\<rparr>\<rparr>;
          s2 = s1\<lparr>other_loading := other_loading s1 @ [img]\<rparr>
      in if submitted (yourself s2) = False then s2\<lparr>other_canvas_display := ''none''\<rparr>
         else s2)"

definition img_onload :: "nat \<Rightarrow> page \<Rightarrow> page" where
  "img_onload k s =
     (if k < length (other_loading s)
      then s\<lparr>other_canvas := other_canvas s @ [other_loading s ! k],
             other_loading := take k (other_loading s) @ drop (Suc k) (other_loading s)\<rparr>
      else s)"

definition other_connection :: "string \<Rightarrow> int \<Rightarrow> page \<Rightarrow> page" where
  "other_connection username u s =
     s\<lparr>overlay_display := ''none'', other_user_html := username,
       other_user := (other_user s)\<lparr>user_id := u\<rparr>, waiting := False\<rparr>"

definition wait :: "page \<Rightarrow> page" where
  "wait s = (let s1 = s\<lparr>overlay_display := ''block''\<rparr> in emit (Waiting (own_id s1) (room s1)) s1)"

definition colour_results :: "page \<Rightarrow> page" where
  "colour_results s =
     (if submitted (yourself s) = True \<and> submitted (other_user s) = True
      then let s1 = s\<lparr>ready_display := ''block''\<rparr>;
               s2 = (if result (other_user s1) = False then s1\<lparr>other_canvas_bg := ''red''\<rparr>
                     else s1\<lparr>other_canvas_bg := ''#67e088''\<rparr>)
           in if result (yourself s2) = False then s2\<lparr>drawing_canvas_bg := ''red''\<rparr>
              else s2\<lparr>drawing_canvas_bg := ''#67e088''\<rparr>
      else s)"

definition result_img :: "int \<Rightarrow> bool \<Rightarrow> int \<Rightarrow> page \<Rightarrow> page" where
  "result_img user res pts s =
     colour_results
       (if user = own_id s
        then let s1 = s\<lparr>yourself := (yourself s)\<lparr>result := res\<rparr>\<rparr>
             in if res
                then let s2 = s1\<lparr>yourself := (yourself s1)\<lparr>points := points (yourself s1) + pts\<rparr>\<rparr>
                     in s2\<lparr>you_points_html := int_string (points (yourself s2)) @ '' POINTS''\<rparr>
                else s1
        else let s1 = s\<lparr>other_user := (other_user s)\<lparr>result := res\<rparr>\<rparr>
             in if res
                then let s2 = s1\<lparr>other_user := (other_user s1)\<lparr>points := points (other_user s1) + pts\<rparr>\<rparr>
                     in s2\<lparr>other_points_html := int_string (points (other_user s2)) @ '' POINTS''\<rparr>
                else s1)"

definition other_ready :: "int \<Rightarrow> page \<Rightarrow> page" where
  "other_ready u s =
     (if u = user_id (other_user s) then s\<lparr>other_user := (other_user s)\<lparr>ready := True\<rparr>\<rparr>
      else s)"

text \<open>\<open>erase\<close>: before \<open>init\<close> has run \<open>ctx\<close> is \<open>false\<close> and
  \<open>ctx.clearRect\<close> throws, after the two assignments.\<close>

definition erase :: "page \<Rightarrow> page outcome" where
  "erase s =
     (let s1 = s\<lparr>snapshots := [], strokeNum := 0\<rparr>
      in if initialised s1 then Returned (s1\<lparr>drawing_canvas := []\<rparr>) else Thrown s1)"

definition clear_other :: "page \<Rightarrow> page" where
  "clear_other s = s\<lparr>other_canvas_bg := ''white'', other_canvas := []\<rparr>"

definition recv_challenge :: "string \<Rightarrow> string \<Rightarrow> int \<Rightarrow> page \<Rightarrow> page outcome" where
  "recv_challenge k sd n s =
     (case erase s of
        Thrown s' \<Rightarrow> Thrown s'
      | Returned s1 \<Rightarrow>
          let s2 = clear_other (s1\<lparr>drawing_canvas_bg := ''white''\<rparr>);
              s3 = s2\<lparr>clr_display := ''inline'', submit_display := ''inline'',
                      ready_display := ''none'', ready_message_display := ''none''\<rparr>;
              s4 = s3\<lparr>yourself := (yourself s3)\<lparr>submitted := False, result := False, ready := False\<rparr>\<rparr>;
              s5 = s4\<lparr>other_user := (other_user s4)\<lparr>submitted := False, result := False, ready := False\<rparr>\<rparr>;
              s6 = s5\<lparr>kana := k, sound := sd, sound_num := n\<rparr>
          in Returned (s6\<lparr>draw_statement_html := ''Draw the character for '' @ [CHR 39] @ sound s6 @ [CHR 39]\<rparr>))"

definition leave_game :: "page \<Rightarrow> page" where
  "leave_game s = emit (Leave_room (room s)) s"

text \<open>\<open>init\<close> sets \<open>canvas\<close>, \<open>ctx\<close>, \<open>w\<close> and \<open>h\<close> and adds one listener for each
  of the four mouse events; called again, it adds four more.\<close>

definition init :: "page \<Rightarrow> page" where
  "init s = s\<lparr>initialised := True, listeners := listeners s + 1\<rparr>"

definition draw :: "page \<Rightarrow> page" where
  "draw s = s\<lparr>drawing_canvas := drawing_canvas s @ [(prevX s, prevY s, currX s, currY s)]\<rparr>"

definition save :: "page \<Rightarrow> page outcome" where
  "save s =
     (if waiting s = False
      then let s1 = s\<lparr>clr_display := ''none'', submit_display := ''none''\<rparr>;
               s2 = emit (Image_submit (own_id s1) (snapshots s1) (room s1) (sound_num s1)) s1;
               s3 = s2\<lparr>yourself := (yourself s2)\<lparr>submitted := True\<rparr>\<rparr>
           in Returned (s3\<lparr>other_canvas_display := ''inline''\<rparr>)
      else erase s)"

definition ready_click :: "page \<Rightarrow> page" where
  "ready_click s =
     (let s1 = s\<lparr>ready_message_display := ''block''\<rparr>;
          s2 = s1\<lparr>yourself := (yourself s1)\<lparr>ready := True\<rparr>\<rparr>
      in if ready (other_user s2) = True
         then emit (User_ready (user_id (yourself s2)) (user_id (other_user s2)) True (room s2)) s2
         else emit (User_ready (user_id (yourself s2)) (user_id (other_user s2)) False (room s2)) s2)"

datatype mouse = Down | Up | Out | Move

text \<open>\<open>findcoords\<close>: the four tests run one after the other; the snapshot key is
  \<open>'stroke' + strokeNum\<close>.  The listeners that call it are added by \<open>init\<close>.\<close>

definition findcoords :: "mouse \<Rightarrow> int \<Rightarrow> int \<Rightarrow> page \<Rightarrow> page" where
  "findcoords res clientX clientY s =
     (let s1 = (if res = Down
                then s\<lparr>strokeNum := strokeNum s + 1, prevX := currX s, prevY := currY s,
                       currX := clientX - offsetLeft s, currY := clientY - offsetTop s,
                       drawing_active := True\<rparr>
                else s);
          s2 = (if res = Up
                then s1\<lparr>snapshots := AList.update (''stroke'' @ to_string (strokeNum s1))
                                        (drawing_canvas s1) (snapshots s1),
                        drawing_active := False\<rparr>
                else s1);
          s3 = (if res = Out then s2\<lparr>drawing_active := False\<rparr> else s2)
      in if res = Move
         then if drawing_active s3
              then draw (s3\<lparr>prevX := currX s3, prevY := currY s3,
                           currX := clientX - offsetLeft s3, currY := clientY - offsetTop s3\<rparr>)
              else s3
         else s3)"

text \<open>The events of a session, and the state each handler leaves behind.  A mouse event
  runs \<open>findcoords\<close> once for each listener \<open>init\<close> has added.\<close>

datatype event =
    Ev_connect
  | Ev_allowed_check bool
  | Ev_info int int
  | Ev_recv_img raster
  | Ev_img_onload nat
  | Ev_other_connection string int
  | Ev_wait
  | Ev_result_img int bool int
  | Ev_other_ready int
  | Ev_recv_challenge string string int
  | Ev_leave_game
  | Ev_init
  | Ev_mouse mouse int int
  | Ev_erase
  | Ev_save
  | Ev_ready

fun handle :: "event \<Rightarrow> page \<Rightarrow> page" where
  "handle Ev_connect s = connect s"
| "handle (Ev_allowed_check a) s = allowed_check a s"
| "handle (Ev_info r u) s = info r u s"
| "handle (Ev_recv_img i) s = recv_img i s"
| "handle (Ev_img_onload k) s = img_onload k s"
| "handle (Ev_other_connection n u) s = other_connection n u s"
| "handle Ev_wait s = wait s"
| "handle (Ev_result_img u r p) s = result_img u r p s"
| "handle (Ev_other_ready u) s = other_ready u s"
| "handle (Ev_recv_challenge k sd n) s = state_of (recv_challenge k sd n s)"
| "handle Ev_leave_game s = leave_game s"
| "handle Ev_init s = init s"
| "handle (Ev_mouse m x y) s = ((findcoords m x y) ^^ listeners s) s"
| "handle Ev_erase s = state_of (erase s)"
| "handle Ev_save s = state_of (save s)"
| "handle Ev_ready s = ready_click s"

fun run :: "event list \<Rightarrow> page \<Rightarrow> page" where
  "run [] s = s"
| "run (e # es) s = run es (handle e s)"


text \<open>The anti-peeking condition: while the peer has submitted and the local participant
  has not, the peer canvas is hidden.\<close>

definition peer_hidden :: "page \<Rightarrow> bool" where
  "peer_hidden s =
     (submitted (other_user s) \<and> \<not> submitted (yourself s) \<longrightarrow> other_canvas_display s = ''none'')"


text \<open>Until \<open>init\<close> has run there is no listener on the canvas and nothing drawn on it.\<close>

definition canvas_untouched :: "page \<Rightarrow> bool" where
  "canvas_untouched s = (initialised s \<or> (listeners s = 0 \<and> drawing_canvas s = []))"

section \<open>Chat controller (chat.js)\<close>

text \<open>
  A message is the tuple \<open>(message, datetime, userid)\<close>: index 0 the text, index 1 the unix
  time, index 2 the sender.  \<open>to_add\<close> maps a unix time to the array \<open>[text, sender]\<close>.
  A property key is the decimal form of the integer; the model keeps the integer.  The
  list holds the own properties in the order \<open>for ... in\<close> visits them: keys that are
  array indices (below \<open>2^32 - 1\<close>) first, ascending, then the others in the order they
  were created.  Assigning to an existing key keeps its place.
\<close>

type_synonym message = "string \<times> nat \<times> int"
type_synonym entry = "string \<times> int"
type_synonym msg_object = "(nat \<times> entry) list"

definition is_index :: "nat \<Rightarrow> bool" where
  "is_index k = (k < 4294967295)"

fun obj_insert :: "nat \<Rightarrow> entry \<Rightarrow> msg_object \<Rightarrow> msg_object" where
  "obj_insert k v [] = [(k, v)]"
| "obj_insert k v ((k', v') # r) =
     (if is_index k \<and> (\<not> is_index k' \<or> k < k') then (k, v) # (k', v') # r
      else (k', v') # obj_insert k v r)"

definition obj_set :: "nat \<Rightarrow> entry \<Rightarrow> msg_object \<Rightarrow> msg_object" where
  "obj_set k v ob = (if k \<in> fst ` set ob then AList.update k v ob else obj_insert k v ob)"

text \<open>
  What \<open>length = to_sort.length\<close> reads: \<open>to_sort\<close> is a plain object whose keys are
  decimal numerals, so it has no \<open>length\<close> property and the value is \<open>undefined\<close>.
  \<open>x < length\<close> converts \<open>undefined\<close> to NaN and is false.
\<close>

datatype jsval = Undefined | Number int

definition obj_length :: "msg_object \<Rightarrow> jsval" where
  "obj_length to_sort = Undefined"

fun js_lt :: "int \<Rightarrow> jsval \<Rightarrow> bool" where
  "js_lt x Undefined = False"
| "js_lt x (Number n) = (x < n)"

text \<open>\<open>to_sort[y]\<close> for a number \<open>y\<close>: the property whose key is the decimal form of
  \<open>y\<close>; a negative \<open>y\<close> names no property of the mapping.\<close>

definition prop_get :: "msg_object \<Rightarrow> int \<Rightarrow> entry option" where
  "prop_get ob y = (if 0 \<le> y then map_of ob (nat y) else None)"

text \<open>\<open>a > b\<close> on two arrays compares their string forms \<open>text,sender\<close>; with
  \<open>undefined\<close> on either side it is false.\<close>

definition entry_string :: "entry \<Rightarrow> string" where
  "entry_string e = fst e @ '','' @ int_string (snd e)"

fun js_gt :: "entry option \<Rightarrow> entry option \<Rightarrow> bool" where
  "js_gt (Some a) (Some b) = (entry_string b < entry_string a)"
| "js_gt _ _ = False"

partial_function (option) bubble_inner ::
    "jsval \<Rightarrow> int \<Rightarrow> msg_object \<Rightarrow> bool \<Rightarrow> (msg_object \<times> bool) option" where
  "bubble_inner len y to_sort flag =
     (if js_lt y len
      then (case (prop_get to_sort y, prop_get to_sort (y + 1)) of
              (Some a, Some b) \<Rightarrow>
                if js_gt (Some a) (Some b)
                then bubble_inner len (y - 1) (obj_set (nat (y + 1)) a (obj_set (nat y) b to_sort)) True
                else bubble_inner len (y - 1) to_sort flag
            | _ \<Rightarrow> bubble_inner len (y - 1) to_sort flag)
      else Some (to_sort, flag))"

partial_function (option) bubble_outer :: "jsval \<Rightarrow> int \<Rightarrow> msg_object \<Rightarrow> msg_object option" where
  "bubble_outer len x to_sort =
     (if js_lt x len
      then Option.bind (bubble_inner len 0 to_sort False)
             (\<lambda>(to_sort', flag). if flag = False then Some to_sort' else bubble_outer len (x + 1) to_sort')
      else Some to_sort)"

declare bubble_inner.simps [code]
declare bubble_outer.simps [code]

text \<open>\<open>bubble\<close>: the two loops, then every value spliced in at position 0 of \<open>sorted\<close>.\<close>

definition bubble :: "msg_object \<Rightarrow> entry list option" where
  "bubble to_sort =
     Option.bind (bubble_outer (obj_length to_sort) 0 to_sort)
       (\<lambda>to_sort'. Some (fold (\<lambda>(k, v) sorted. v # sorted) to_sort' []))"

text \<open>The children of \<open>messages_container\<close>: each a clone of one of the two hidden
  templates, with its id and the text put in it.\<close>

record node =
  node_id :: string
  cloned_from :: string
  inner_html :: string

datatype chat_msg =
    Who_are_we
  | Chat_join int int
  | Get_messages int
  | Send_message string int int

record chat =
  yours_id :: int
  yours_messages :: "message list"
  others_id :: int
  others_messages :: "message list"
  your_ind :: nat
  other_ind :: nat
  chat_room :: int
  container :: "node list"
  mess_input :: string
  chat_emitted :: "chat_msg list"

definition chat0 :: chat where
  "chat0 = \<lparr>yours_id = 0, yours_messages = [], others_id = 0, others_messages = [],
            your_ind = 0, other_ind = 0, chat_room = 0, container = [], mess_input = [],
            chat_emitted = []\<rparr>"

text \<open>\<open>document.getElementById(i).remove()\<close>: the first node with that id is removed;
  with no such node the call is on \<open>null\<close> and throws.\<close>

fun remove_node :: "string \<Rightarrow> node list \<Rightarrow> node list option" where
  "remove_node i [] = None"
| "remove_node i (n # ns) =
     (if node_id n = i then Some ns else map_option ((#) n) (remove_node i ns))"

fun remove_ids :: "string list \<Rightarrow> node list \<Rightarrow> node list outcome" where
  "remove_ids [] c = Returned c"
| "remove_ids (i # rest) c =
     (case remove_node i c of None \<Rightarrow> Thrown c | Some c' \<Rightarrow> remove_ids rest c')"

definition your_ids :: "nat \<Rightarrow> string list" where
  "your_ids n = map (\<lambda>z. ''your_message_'' @ to_string z) [1..<Suc n]"

definition other_ids :: "nat \<Rightarrow> string list" where
  "other_ids n = map (\<lambda>z. ''other_message_'' @ to_string z) [1..<Suc n]"

text \<open>The first part of \<open>message_order\<close>: the two loops that remove the rendered
  messages, each followed by the reset of its counter.\<close>

definition clear_messages :: "chat \<Rightarrow> chat outcome" where
  "clear_messages s =
     (case remove_ids (your_ids (your_ind s)) (container s) of
        Thrown c \<Rightarrow> Thrown (s\<lparr>container := c\<rparr>)
      | Returned c1 \<Rightarrow>
          let s1 = s\<lparr>container := c1, your_ind := 0\<rparr>
          in (case remove_ids (other_ids (other_ind s1)) (container s1) of
                Thrown c \<Rightarrow> Thrown (s1\<lparr>container := c\<rparr>)
              | Returned c2 \<Rightarrow> Returned (s1\<lparr>container := c2, other_ind := 0\<rparr>)))"

text \<open>The middle part: \<open>to_add\<close> filled from the user's messages, then the other user's.\<close>

definition add_messages :: "message list \<Rightarrow> msg_object \<Rightarrow> msg_object" where
  "add_messages messages to_add =
     fold (\<lambda>(text, time, sender) ob. obj_set time (text, sender) ob) messages to_add"

definition merge_messages :: "chat \<Rightarrow> msg_object" where
  "merge_messages s = add_messages (others_messages s) (add_messages (yours_messages s) [])"

text \<open>\<open>message_order_list\<close>: the entries of the array \<open>bubble\<close> returns, in index order.\<close>

definition message_order_list :: "chat \<Rightarrow> entry list option" where
  "message_order_list s = bubble (merge_messages s)"

definition display_message :: "entry \<Rightarrow> chat \<Rightarrow> chat" where
  "display_message e s =
     (if snd e = yours_id s
      then let s1 = s\<lparr>your_ind := your_ind s + 1\<rparr>
           in s1\<lparr>container := container s1 @
                  [\<lparr>node_id = ''your_message_'' @ to_string (your_ind s1),
                    cloned_from = ''your_message'', inner_html = fst e\<rparr>]\<rparr>
      else let s1 = s\<lparr>other_ind := other_ind s + 1\<rparr>
           in s1\<lparr>container := container s1 @
                  [\<lparr>node_id = ''other_message_'' @ to_string (other_ind s1),
                    cloned_from = ''other_message'', inner_html = fst e\<rparr>]\<rparr>)"

definition display_messages :: "entry list \<Rightarrow> chat \<Rightarrow> chat" where
  "display_messages message_list s = fold display_message message_list s"

text \<open>\<open>message_order\<close>: \<open>None\<close> when \<open>bubble\<close> does not return.\<close>

definition message_order :: "chat \<Rightarrow> chat outcome option" where
  "message_order s =
     (case clear_messages s of
        Thrown s' \<Rightarrow> Some (Thrown s')
      | Returned s1 \<Rightarrow>
          (case message_order_list s1 of
             None \<Rightarrow> None
           | Some l \<Rightarrow> Some (Returned (display_messages l s1))))"

definition you_are :: "int \<Rightarrow> int \<Rightarrow> int \<Rightarrow> chat \<Rightarrow> chat" where
  "you_are you them r s =
     (let s1 = s\<lparr>yours_id := you, others_id := them, chat_room := r\<rparr>
      in s1\<lparr>chat_emitted := chat_emitted s1 @
               [Chat_join (yours_id s1) (chat_room s1), Get_messages (others_id s1)]\<rparr>)"

definition recv_previous :: "message list \<Rightarrow> message list \<Rightarrow> chat \<Rightarrow> chat outcome option" where
  "recv_previous yours others s =
     message_order (s\<lparr>yours_messages := yours, others_messages := others\<rparr>)"

text \<open>\<open>new_message\<close> files the message by comparing its index 1 with the user's id.\<close>

definition new_message :: "message \<Rightarrow> chat \<Rightarrow> chat outcome option" where
  "new_message m s =
     message_order
       (if int (fst (snd m)) = yours_id s then s\<lparr>yours_messages := yours_messages s @ [m]\<rparr>
        else s\<lparr>others_messages := others_messages s @ [m]\<rparr>)"

definition send_message :: "chat \<Rightarrow> chat" where
  "send_message s =
     (let s1 = s\<lparr>chat_emitted := chat_emitted s @
                  [Send_message (mess_input s) (others_id s) (yours_id s)]\<rparr>
      in s1\<lparr>mess_input := []\<rparr>)"

text \<open>The page is consistent when the message region holds exactly the nodes the two
  counters track: the clearing loops find every node and leave the region empty.\<close>

definition tracked :: "chat \<Rightarrow> bool" where
  "tracked s = (case clear_messages s of Returned s' \<Rightarrow> container s' = [] | Thrown s' \<Rightarrow> False)"

text \<open>The unix time of a message (the key it is filed under) and the array kept for it.\<close>

definition msg_time :: "message \<Rightarrow> nat" where
  "msg_time m = fst (snd m)"

definition msg_entry :: "message \<Rightarrow> entry" where
  "msg_entry m = (fst m, snd (snd m))"


section \<open>Matching game (matching-2.js)\<close>

text \<open>
  An entry of \<open>characters\<close> is the array \<open>[character/sound, sound]\<close>: index 0 is shown
  on the card, index 1 is the sound two matching cards share.  \<open>indexOf\<close> compares
  entries by identity, so each entry carries the identity of its array: the number of the
  \<open>character_list\<close> message that brought it and its position in that list.
\<close>

record tile =
  origin :: nat
  slot :: nat
  shown :: string
  sound_of :: string

record card =
  card_id :: string
  class_name :: string
  clickable :: bool
  card_html :: string

record holder =
  hold_id :: string
  held :: card

datatype match_msg = Match_check_allowed | Match_connect | Done_matches

text \<open>\<open>selected\<close> and \<open>not_allowed\<close> may hold \<open>undefined\<close> (\<open>None\<close>): what
  \<open>characters[index - 1]\<close> gives outside the list.\<close>

record game =
  characters :: "tile list"
  match_points :: int
  selected :: "tile option list"
  not_allowed :: "tile option list"
  found :: "tile list"
  received :: nat
  matching :: "holder list"
  template_class :: string
  result_html :: string
  points_html :: string
  not_allowed_overlay :: string
  game_emitted :: "match_msg list"

definition game0 :: "string \<Rightarrow> string \<Rightarrow> game" where
  "game0 cls d =
     \<lparr>characters = [], match_points = 0, selected = [], not_allowed = [], found = [],
      received = 0, matching = [], template_class = cls, result_html = [], points_html = [],
      not_allowed_overlay = d, game_emitted = []\<rparr>"

definition match_allowed_check :: "bool \<Rightarrow> game \<Rightarrow> game" where
  "match_allowed_check allowed s =
     (if allowed = False then s\<lparr>not_allowed_overlay := ''block''\<rparr>
      else s\<lparr>game_emitted := game_emitted s @ [Match_connect]\<rparr>)"

text \<open>\<open>character_list\<close>: one card holder is appended for each entry of the list.\<close>

definition new_holder :: "string \<Rightarrow> nat \<Rightarrow> tile \<Rightarrow> holder" where
  "new_holder cls x c =
     \<lparr>hold_id = ''card_hold_'' @ to_string x,
      held = \<lparr>card_id = ''card_'' @ to_string x, class_name = cls, clickable = True,
              card_html = shown c\<rparr>\<rparr>"

definition character_list :: "(string \<times> string) list \<Rightarrow> game \<Rightarrow> game" where
  "character_list l s =
     (let s1 = s\<lparr>characters := map (\<lambda>(i, (a, b)). \<lparr>origin = received s, slot = i, shown = a, sound_of = b\<rparr>)
                                   (zip [0..<length l] l),
                 received := received s + 1\<rparr>
      in s1\<lparr>matching := matching s1 @
               map (\<lambda>(i, c). new_holder (template_class s1) (i + 1) c)
                   (zip [0..<length (characters s1)] (characters s1))\<rparr>)"

text \<open>\<open>Array.prototype.indexOf\<close>: \<open>None\<close> stands for \<open>-1\<close>.\<close>

fun index_of :: "'a \<Rightarrow> 'a list \<Rightarrow> nat option" where
  "index_of x [] = None"
| "index_of x (y # ys) = (if x = y then Some 0 else map_option Suc (index_of x ys))"

text \<open>\<open>xs.splice(i, 1)\<close> with \<open>i\<close> the result of \<open>indexOf\<close>: \<open>-1\<close> counts from the
  end and removes the last element.\<close>

definition splice1 :: "nat option \<Rightarrow> 'a list \<Rightarrow> 'a list" where
  "splice1 i xs = (case i of None \<Rightarrow> butlast xs | Some k \<Rightarrow> take k xs @ drop (Suc k) xs)"

text \<open>The id \<open>"card_" + (ind + 1).toString()\<close>.\<close>

definition card_name :: "nat option \<Rightarrow> string" where
  "card_name ind = ''card_'' @ to_string (case ind of None \<Rightarrow> 0 | Some i \<Rightarrow> i + 1)"

text \<open>\<open>document.getElementById(i)\<close> for a card id: a reference to the first card with
  that id (its position among the holders), \<open>None\<close> for \<open>null\<close>.  An assignment
  through a reference changes the card at that position.\<close>

fun find_card :: "string \<Rightarrow> holder list \<Rightarrow> nat option" where
  "find_card i [] = None"
| "find_card i (h # hs) =
     (if card_id (held h) = i then Some 0 else map_option Suc (find_card i hs))"

definition set_card :: "nat \<Rightarrow> (card \<Rightarrow> card) \<Rightarrow> holder list \<Rightarrow> holder list" where
  "set_card p f m = m[p := (m ! p)\<lparr>held := f (held (m ! p))\<rparr>]"

definition get_card :: "string \<Rightarrow> holder list \<Rightarrow> card option" where
  "get_card i m = (case find_card i m of None \<Rightarrow> None | Some p \<Rightarrow> Some (held (m ! p)))"

fun remove_holder :: "string \<Rightarrow> holder list \<Rightarrow> holder list option" where
  "remove_holder i [] = None"
| "remove_holder i (h # hs) =
     (if hold_id h = i then Some hs else map_option ((#) h) (remove_holder i hs))"

fun remove_holders :: "string list \<Rightarrow> holder list \<Rightarrow> holder list outcome" where
  "remove_holders [] m = Returned m"
| "remove_holders (i # rest) m =
     (case remove_holder i m of None \<Rightarrow> Thrown m | Some m' \<Rightarrow> remove_holders rest m')"

text \<open>The comparison in \<open>check\<close>, with the \<open>selected = []\<close> that follows both of its
  branches.  Reading index 1 of an \<open>undefined\<close> entry throws before anything is changed;
  an assignment to a card that is not on the page throws where it stands.\<close>

definition compare_pair :: "game \<Rightarrow> game outcome" where
  "compare_pair s =
     (case (selected s ! 0, selected s ! 1) of
        (Some a, Some b) \<Rightarrow>
          if sound_of a = sound_of b
          then let s1 = s\<lparr>result_html := ''Correct!''\<rparr>;
                   s2 = s1\<lparr>found := found s1 @ [a, b]\<rparr>;
                   card_a = find_card (card_name (index_of a (characters s2))) (matching s2);
                   card_b = find_card (card_name (index_of b (characters s2))) (matching s2)
               in (case card_a of
                     None \<Rightarrow> Thrown s2
                   | Some pa \<Rightarrow>
                       let s3 = s2\<lparr>matching :=
                                 set_card pa (\<lambda>c. c\<lparr>class_name := ''disabled_correct''\<rparr>) (matching s2)\<rparr>
                       in (case card_b of
                             None \<Rightarrow> Thrown s3
                           | Some pb \<Rightarrow>
                               let s4 = s3\<lparr>matching :=
                                         set_card pb (\<lambda>c. c\<lparr>class_name := ''disabled_correct''\<rparr>) (matching s3)\<rparr>;
                                   s5 = s4\<lparr>matching := set_card pa (\<lambda>c. c\<lparr>clickable := False\<rparr>) (matching s4)\<rparr>;
                                   s6 = s5\<lparr>matching := set_card pb (\<lambda>c. c\<lparr>clickable := False\<rparr>) (matching s5)\<rparr>;
                                   s7 = s6\<lparr>match_points := match_points s6 + 2\<rparr>;
                                   s8 = s7\<lparr>points_html := ''Points: '' @ int_string (match_points s7)\<rparr>
                               in Returned (s8\<lparr>selected := []\<rparr>)))
          else let ind1 = index_of a (characters s);
                   ind2 = index_of b (characters s);
                   s1 = s\<lparr>result_html := ''Incorrect!''\<rparr>;
                   card_a = find_card (card_name ind1) (matching s1);
                   card_b = find_card (card_name ind2) (matching s1)
               in (case card_a of
                     None \<Rightarrow> Thrown s1
                   | Some pa \<Rightarrow>
                       let s2 = s1\<lparr>matching :=
                                 set_card pa (\<lambda>c. c\<lparr>class_name := ''match_card''\<rparr>) (matching s1)\<rparr>
                       in (case card_b of
                             None \<Rightarrow> Thrown s2
                           | Some pb \<Rightarrow>
                               let s3 = s2\<lparr>matching :=
                                         set_card pb (\<lambda>c. c\<lparr>class_name := ''match_card''\<rparr>) (matching s2)\<rparr>;
                                   s4 = s3\<lparr>matching := set_card pa (\<lambda>c. c\<lparr>clickable := True\<rparr>) (matching s3)\<rparr>;
                                   s5 = s4\<lparr>matching := set_card pb (\<lambda>c. c\<lparr>clickable := True\<rparr>) (matching s4)\<rparr>;
                                   s6 = s5\<lparr>not_allowed :=
                                         splice1 (index_of (Some a) (not_allowed s5)) (not_allowed s5)\<rparr>;
                                   s7 = s6\<lparr>not_allowed :=
                                         splice1 (index_of (Some b) (not_allowed s6)) (not_allowed s6)\<rparr>
                               in Returned (s7\<lparr>selected := []\<rparr>)))
      | _ \<Rightarrow> Thrown s)"

text \<open>The last statement of \<open>check\<close>: a full \<open>found\<close> list tears the deck down and asks
  for a new one.\<close>

definition tear_down :: "game \<Rightarrow> game outcome" where
  "tear_down s =
     (if length (found s) = 10
      then let s2 = s\<lparr>characters := [], found := [], not_allowed := []\<rparr>;
               s3 = s2\<lparr>game_emitted := game_emitted s2 @ [Done_matches]\<rparr>
           in (case remove_holders (map (\<lambda>z. ''card_hold_'' @ to_string z) [1..<11]) (matching s3) of
                 Thrown m \<Rightarrow> Thrown (s3\<lparr>matching := m\<rparr>)
               | Returned m \<Rightarrow>
                   Returned (s3\<lparr>matching := m, game_emitted := game_emitted s3 @ [Match_connect]\<rparr>))
      else Returned s)"

text \<open>\<open>check\<close>: with two entries selected, the comparison and then the tear-down test.\<close>

definition check :: "game \<Rightarrow> game outcome" where
  "check s =
     (if length (selected s) = 2
      then (case compare_pair s of Thrown t \<Rightarrow> Thrown t | Returned t \<Rightarrow> tear_down t)
      else Returned s)"

text \<open>\<open>characters[index - 1]\<close> for the card \<open>card_x\<close>.\<close>

definition this_char_of :: "nat \<Rightarrow> game \<Rightarrow> tile option" where
  "this_char_of x s =
     (if 1 \<le> x \<and> x - 1 < length (characters s) then Some (characters s ! (x - 1)) else None)"

text \<open>The three statements by which \<open>this_one\<close> selects the card, before it calls
  \<open>check\<close>.\<close>

definition select_card :: "nat \<Rightarrow> game \<Rightarrow> game outcome" where
  "select_card x s =
     (let this_card = find_card (''card_'' @ to_string x) (matching s);
          this_char = this_char_of x s;
          s1 = s\<lparr>selected := selected s @ [this_char]\<rparr>
      in (case this_card of
            None \<Rightarrow> Thrown s1
          | Some p \<Rightarrow>
              let s2 = s1\<lparr>matching :=
                         set_card p (\<lambda>c. c\<lparr>class_name := ''disabled_selected''\<rparr>) (matching s1)\<rparr>
              in Returned (s2\<lparr>not_allowed := not_allowed s2 @ [this_char]\<rparr>)))"

text \<open>\<open>this_one\<close>, called with the id \<open>card_x\<close> of the card that was clicked.\<close>

definition this_one :: "nat \<Rightarrow> game \<Rightarrow> game outcome" where
  "this_one x s =
     (if index_of (this_char_of x s) (not_allowed s) = None
      then (case select_card x s of Thrown t \<Rightarrow> Thrown t | Returned t \<Rightarrow> check t)
      else Returned s)"

text \<open>The four assignments \<open>check\<close> makes to the two cards: the class of each, then
  the click handler of each.\<close>

definition mark :: "string \<Rightarrow> bool \<Rightarrow> nat \<Rightarrow> nat \<Rightarrow> holder list \<Rightarrow> holder list" where
  "mark cls on pa pb m =
     set_card pb (\<lambda>c. c\<lparr>clickable := on\<rparr>) (set_card pa (\<lambda>c. c\<lparr>clickable := on\<rparr>)
       (set_card pb (\<lambda>c. c\<lparr>class_name := cls\<rparr>) (set_card pa (\<lambda>c. c\<lparr>class_name := cls\<rparr>) m)))"

text \<open>The state each click leaves behind, for a sequence of clicks on cards.\<close>

fun clicks :: "nat list \<Rightarrow> game \<Rightarrow> game" where
  "clicks [] s = s"
| "clicks (x # xs) s = clicks xs (state_of (this_one x s))"

text \<open>
  The state of a game between two clicks: the entries of \<open>characters\<close> are distinct
  arrays, each has its card on the page, no entry is locked twice, and at most one
  entry is selected, one of \<open>characters\<close> that is locked.
\<close>

definition game_ok :: "game \<Rightarrow> bool" where
  "game_ok s =
     (distinct (characters s) \<and>
      list_all (\<lambda>i. find_card (''card_'' @ to_string (i + 1)) (matching s) \<noteq> None)
        [0..<length (characters s)] \<and>
      distinct (not_allowed s) \<and>
      length (selected s) \<le> 1 \<and>
      list_all (\<lambda>c. c \<in> set (not_allowed s) \<and> c \<in> Some ` set (characters s)) (selected s))"

section \<open>List and table controllers (home.js, dictionary.js, profile.js)\<close>

subsection \<open>Home page leaderboard\<close>

text \<open>A row of the \<open>leaderboard\<close> table: its three cells.  \<open>insertRow()\<close> adds the
  new row after the rows the table already has.\<close>

type_synonym board_row = "string \<times> string \<times> string"

fun leaderboard_rows :: "nat \<Rightarrow> (string \<times> int) list \<Rightarrow> board_row list \<Rightarrow> board_row list" where
  "leaderboard_rows x [] rows = rows"
| "leaderboard_rows x ((username, pts) # users) rows =
     leaderboard_rows (x + 1) users
       (rows @ [(CHR ''#'' # to_string (x + 1), username, int_string pts)])"

definition leaderboard :: "(string \<times> int) list \<Rightarrow> board_row list \<Rightarrow> board_row list" where
  "leaderboard users rows = leaderboard_rows 0 users rows"

subsection \<open>Profile page: results of a search for users\<close>

text \<open>A clone of the hidden \<open>request_results\<close> template: its id, its display, the text
  of its first child and the id of its second child.  The global \<open>x\<close> is read only after
  it has been assigned.\<close>

record request_row =
  row_id :: string
  row_display :: string
  row_name :: string
  row_button_id :: string

record profile =
  profile_x :: int
  request_results_list :: "request_row list"

definition add_user :: "int \<times> string \<Rightarrow> profile \<Rightarrow> profile" where
  "add_user user s =
     (let s1 = s\<lparr>profile_x := profile_x s + 1\<rparr>
      in s1\<lparr>request_results_list := request_results_list s1 @
               [\<lparr>row_id = ''request_result_'' @ int_string (profile_x s1), row_display = ''block'',
                 row_name = snd user, row_button_id = ''final_req_'' @ int_string (fst user)\<rparr>]\<rparr>)"

definition found_users :: "(int \<times> string) list \<Rightarrow> profile \<Rightarrow> profile" where
  "found_users users s =
     fold add_user users (if length users \<noteq> 0 then s\<lparr>profile_x := - 1\<rparr> else s)"

subsection \<open>Dictionary search results\<close>

text \<open>
  A search result box is a clone of the hidden \<open>search_result_\<close> template, taken to have
  the four children the script addresses: child 1 gets the primary reading and an id,
  children 2 and 3 get ids and serve as the models of the reading and meaning lines, which
  are appended to the box after them together with the two headings.
\<close>

record elem =
  elem_id :: string
  cloned_of :: string
  elem_html :: string

record result_box =
  box_id :: string
  box_display :: string
  primary_id :: string
  primary_html :: string
  secondary_id :: string
  meaning_id :: string
  appended :: "elem list"

record dict_entry =
  PrimaryReading :: string
  Readings :: "string list"
  Meanings :: "string list"

record dictionary =
  current_index :: nat
  search_results :: "result_box list"

definition dictionary0 :: dictionary where
  "dictionary0 = \<lparr>current_index = 0, search_results = []\<rparr>"

fun remove_box :: "string \<Rightarrow> result_box list \<Rightarrow> result_box list option" where
  "remove_box i [] = None"
| "remove_box i (b # bs) =
     (if box_id b = i then Some bs else map_option ((#) b) (remove_box i bs))"

fun remove_boxes :: "string list \<Rightarrow> result_box list \<Rightarrow> result_box list outcome" where
  "remove_boxes [] r = Returned r"
| "remove_boxes (i # rest) r =
     (case remove_box i r of None \<Rightarrow> Thrown r | Some r' \<Rightarrow> remove_boxes rest r')"

definition box_ids :: "nat \<Rightarrow> string list" where
  "box_ids n = map (\<lambda>z. ''search_result_'' @ to_string z) [1..<Suc n]"

text \<open>\<open>document.getElementById(i)\<close> for the id of a line: the first element with that
  id, boxes in page order and within a box its children in order; the result is what the
  element is a copy of.\<close>

fun find_line :: "string \<Rightarrow> elem list \<Rightarrow> string option" where
  "find_line i [] = None"
| "find_line i (e # es) = (if elem_id e = i then Some (cloned_of e) else find_line i es)"

fun find_kind :: "string \<Rightarrow> result_box list \<Rightarrow> string option" where
  "find_kind i [] = None"
| "find_kind i (b # bs) =
     (if primary_id b = i then Some ''primary''
      else if secondary_id b = i then Some ''secondary''
      else if meaning_id b = i then Some ''meaning''
      else (case find_line i (appended b) of Some k \<Rightarrow> Some k | None \<Rightarrow> find_kind i bs))"

text \<open>\<open>document.getElementById(i).appendChild(e)\<close> for the id of a box.\<close>

fun append_to_box :: "string \<Rightarrow> elem \<Rightarrow> result_box list \<Rightarrow> result_box list option" where
  "append_to_box i e [] = None"
| "append_to_box i e (b # bs) =
     (if box_id b = i then Some (b\<lparr>appended := appended b @ [e]\<rparr> # bs)
      else map_option ((#) b) (append_to_box i e bs))"

text \<open>One of the two inner loops: the \<open>y\<close>-th line is a copy of the element with id
  \<open>src\<close>, with id \<open>src + y.toString()\<close> and the line's text.\<close>

fun add_lines :: "string \<Rightarrow> string \<Rightarrow> nat \<Rightarrow> string list \<Rightarrow> result_box list \<Rightarrow> result_box list outcome" where
  "add_lines src box y [] r = Returned r"
| "add_lines src box y (t # ts) r =
     (case find_kind src r of
        None \<Rightarrow> Thrown r
      | Some k \<Rightarrow>
          (case append_to_box box \<lparr>elem_id = src @ to_string (y + 1), cloned_of = k, elem_html = t\<rparr> r of
             None \<Rightarrow> Thrown r
           | Some r' \<Rightarrow> add_lines src box (y + 1) ts r'))"

definition heading :: "string \<Rightarrow> elem" where
  "heading t = \<lparr>elem_id = [], cloned_of = ''h2'', elem_html = t\<rparr>"

definition new_box :: "nat \<Rightarrow> dict_entry \<Rightarrow> result_box" where
  "new_box x e =
     \<lparr>box_id = ''search_result_'' @ to_string x, box_display = ''block'',
      primary_id = ''primary_'' @ to_string x, primary_html = PrimaryReading e,
      secondary_id = ''secondary_'' @ to_string x, meaning_id = ''meaning_'' @ to_string x,
      appended = []\<rparr>"

definition render_entry :: "nat \<Rightarrow> dict_entry \<Rightarrow> result_box list \<Rightarrow> result_box list outcome" where
  "render_entry x e r =
     (let r1 = r @ [new_box x e]
      in case append_to_box (''search_result_'' @ to_string x) (heading ''Other Readings:'') r1 of
           None \<Rightarrow> Thrown r1
         | Some r2 \<Rightarrow>
             (case add_lines (''secondary_'' @ to_string x) (''search_result_'' @ to_string x) 0
                     (Readings e) r2 of
                Thrown r' \<Rightarrow> Thrown r'
              | Returned r3 \<Rightarrow>
                  (case append_to_box (''search_result_'' @ to_string x) (heading ''Meanings:'') r3 of
                     None \<Rightarrow> Thrown r3
                   | Some r4 \<Rightarrow>
                       add_lines (''meaning_'' @ to_string x) (''search_result_'' @ to_string x) 0
                         (Meanings e) r4)))"

text \<open>The outer loop; \<open>current_index = x\<close> is the last statement of its body.\<close>

fun render_entries :: "nat \<Rightarrow> dict_entry list \<Rightarrow> dictionary \<Rightarrow> dictionary outcome" where
  "render_entries x [] s = Returned s"
| "render_entries x (e # es) s =
     (case render_entry (x + 1) e (search_results s) of
        Thrown r \<Rightarrow> Thrown (s\<lparr>search_results := r\<rparr>)
      | Returned r \<Rightarrow> render_entries (x + 1) es (s\<lparr>search_results := r, current_index := x + 1\<rparr>))"

definition dictionary_results :: "dict_entry list \<Rightarrow> dictionary \<Rightarrow> dictionary outcome" where
  "dictionary_results entries s =
     (case remove_boxes (box_ids (current_index s)) (search_results s) of
        Thrown r \<Rightarrow> Thrown (s\<lparr>search_results := r\<rparr>)
      | Returned r \<Rightarrow>
          let s1 = s\<lparr>search_results := r, current_index := 0\<rparr>
          in render_entries (current_index s1) entries s1)"

text \<open>The results region is consistent when it holds exactly the boxes
  \<open>current_index\<close> counts: the clearing loop finds each and leaves the region empty.\<close>

definition dict_tracked :: "dictionary \<Rightarrow> bool" where
  "dict_tracked s =
     (remove_boxes (box_ids (current_index s)) (search_results s) = Returned [])"

text \<open>The ids by which the script finds a box and its two model lines.\<close>

definition shape :: "result_box list \<Rightarrow> (string \<times> string \<times> string) list" where
  "shape r = map (\<lambda>b. (box_id b, secondary_id b, meaning_id b)) r"

section \<open>Properties of the collaborative drawing session\<close>

lemmas handler_defs = connect_def allowed_check_def info_def recv_img_def img_onload_def
  other_connection_def wait_def colour_results_def result_img_def other_ready_def erase_def
  clear_other_def recv_challenge_def leave_game_def init_def draw_def save_def ready_click_def
  findcoords_def emit_def

lemma findcoords_frame:
  "submitted (yourself (findcoords m x y s)) = submitted (yourself s) \<and>
   submitted (other_user (findcoords m x y s)) = submitted (other_user s) \<and>
   other_canvas_display (findcoords m x y s) = other_canvas_display s"
  by (simp add: findcoords_def draw_def Let_def)

lemma mouse_frame:
  "submitted (yourself ((findcoords m x y ^^ n) s)) = submitted (yourself s) \<and>
   submitted (other_user ((findcoords m x y ^^ n) s)) = submitted (other_user s) \<and>
   other_canvas_display ((findcoords m x y ^^ n) s) = other_canvas_display s"
  by (induction n) (simp_all add: findcoords_frame)

lemma handle_peer_hidden: "peer_hidden s \<Longrightarrow> peer_hidden (handle e s)"
proof (cases e)
  case (Ev_mouse m x y)
  assume "peer_hidden s"
  with Ev_mouse show ?thesis
    by (simp add: peer_hidden_def mouse_frame)
qed (auto simp: peer_hidden_def handler_defs Let_def)

lemma run_peer_hidden: "peer_hidden s \<Longrightarrow> peer_hidden (run es s)"
  by (induction es arbitrary: s) (simp_all add: handle_peer_hidden)

lemma page0_peer_hidden: "peer_hidden (page0 bg d ol ot)"
  by (simp add: peer_hidden_def page0_def new_status_def)

lemma display_shown_only_by_save:
  assumes "other_canvas_display (handle e s) \<noteq> other_canvas_display s"
    and "other_canvas_display (handle e s) \<noteq> ''none''"
  shows "e = Ev_save \<and> submitted (yourself (handle e s))"
proof (cases e)
  case (Ev_mouse m x y)
  with assms show ?thesis by (simp add: mouse_frame)
qed (insert assms, auto simp: handler_defs Let_def split: if_splits)

text \<open>
  Claim C1.  Whatever the order of the events of a session (\<open>recv_img\<close>, \<open>save\<close> and
  all the others), in every state the session reaches the peer canvas is hidden while the
  peer has submitted and the local participant has not.  A peer image that arrives while
  the local \<open>submitted\<close> flag is false hides the peer canvas at receipt, and the only
  handler that changes the peer canvas's display to something other than \<open>none\<close> is
  \<open>save\<close>, after which the local flag is true.
\<close>

theorem peer_canvas_hidden_until_submitted:
  "peer_hidden (run es (page0 bg d ol ot)) \<and>
   (\<not> submitted (yourself s) \<longrightarrow> other_canvas_display (recv_img img s) = ''none'') \<and>
   (other_canvas_display (handle e s) \<noteq> other_canvas_display s \<and>
    other_canvas_display (handle e s) \<noteq> ''none'' \<longrightarrow>
      e = Ev_save \<and> submitted (yourself (handle e s)))"
proof (intro conjI impI)
  show "peer_hidden (run es (page0 bg d ol ot))"
    by (rule run_peer_hidden) (rule page0_peer_hidden)
next
  assume "\<not> submitted (yourself s)"
  then show "other_canvas_display (recv_img img s) = ''none''"
    by (simp add: recv_img_def)
next
  assume "other_canvas_display (handle e s) \<noteq> other_canvas_display s \<and>
    other_canvas_display (handle e s) \<noteq> ''none''"
  then show "e = Ev_save" using display_shown_only_by_save [of e s] by blast
next
  assume "other_canvas_display (handle e s) \<noteq> other_canvas_display s \<and>
    other_canvas_display (handle e s) \<noteq> ''none''"
  then show "submitted (yourself (handle e s))" using display_shown_only_by_save [of e s] by blast
qed

theorem peer_canvas_hidden_until_submitted_witness:
  "submitted (other_user (run [Ev_init, Ev_other_connection ''peer'' 2, Ev_recv_img [(0, 0, 1, 1)]]
      (page0 ''white'' ''block'' 0 0))) \<and>
   \<not> submitted (yourself (run [Ev_init, Ev_other_connection ''peer'' 2, Ev_recv_img [(0, 0, 1, 1)]]
      (page0 ''white'' ''block'' 0 0))) \<and>
   other_canvas_display (run [Ev_init, Ev_other_connection ''peer'' 2, Ev_recv_img [(0, 0, 1, 1)]]
      (page0 ''white'' ''block'' 0 0)) = ''none'' \<and>
   other_canvas_display (handle Ev_save (other_connection ''peer'' 2 (page0 ''white'' ''block'' 0 0)))
     \<noteq> other_canvas_display (other_connection ''peer'' 2 (page0 ''white'' ''block'' 0 0)) \<and>
   submitted (yourself (handle Ev_save (other_connection ''peer'' 2 (page0 ''white'' ''block'' 0 0))))"
  using peer_canvas_hidden_until_submitted
    [of "[Ev_init, Ev_other_connection ''peer'' 2, Ev_recv_img [(0, 0, 1, 1)]]" "''white''" "''block''" 0 0
        "other_connection ''peer'' 2 (page0 ''white'' ''block'' 0 0)" "[]" Ev_save]
  by (simp add: peer_hidden_def handler_defs page0_def new_status_def)

lemma result_img_submitted:
  "submitted (yourself (result_img u r p s)) = submitted (yourself s) \<and>
   submitted (other_user (result_img u r p s)) = submitted (other_user s)"
  by (simp add: result_img_def colour_results_def Let_def)

lemma result_img_colours:
  assumes "submitted (yourself s)" and "submitted (other_user s)"
  shows "drawing_canvas_bg (result_img u r p s) =
           (if result (yourself (result_img u r p s)) then ''#67e088'' else ''red'') \<and>
         other_canvas_bg (result_img u r p s) =
           (if result (other_user (result_img u r p s)) then ''#67e088'' else ''red'') \<and>
         ready_display (result_img u r p s) = ''block''"
  using assms by (simp add: result_img_def colour_results_def Let_def)

lemma either_order_both_submitted:
  assumes "\<not> waiting s" and "es \<in> {[Ev_save, Ev_recv_img img], [Ev_recv_img img, Ev_save]}"
  shows "submitted (yourself (run es s)) \<and> submitted (other_user (run es s))"
  using assms by (auto simp: save_def recv_img_def emit_def Let_def)

lemma result_img_unsubmitted:
  "\<not> (submitted (yourself s) \<and> submitted (other_user s)) \<Longrightarrow>
      drawing_canvas_bg (result_img u r p s) = drawing_canvas_bg s \<and>
      other_canvas_bg (result_img u r p s) = other_canvas_bg s \<and>
      ready_display (result_img u r p s) = ready_display s"
  by (auto simp: result_img_def colour_results_def Let_def)

text \<open>
  Claim C2.  \<open>colour_results\<close> leaves the page as it is (no background changed, the ready
  control not revealed) unless both \<open>submitted\<close> flags are true; when both are true it
  reveals the ready control and gives each canvas the correct colour exactly when that
  participant's own \<open>result\<close> is true, the incorrect colour otherwise.  The same holds
  after a \<open>result_img\<close> message, for the local submit and the peer image in either order.
\<close>

theorem colour_results_only_when_both_submitted:
  "(\<not> (submitted (yourself s) \<and> submitted (other_user s)) \<longrightarrow> colour_results s = s) \<and>
   (submitted (yourself s) \<and> submitted (other_user s) \<longrightarrow>
      ready_display (colour_results s) = ''block'' \<and>
      drawing_canvas_bg (colour_results s) = (if result (yourself s) then ''#67e088'' else ''red'') \<and>
      other_canvas_bg (colour_results s) = (if result (other_user s) then ''#67e088'' else ''red'')) \<and>
   (\<not> (submitted (yourself s) \<and> submitted (other_user s)) \<longrightarrow>
      drawing_canvas_bg (result_img u r p s) = drawing_canvas_bg s \<and>
      other_canvas_bg (result_img u r p s) = other_canvas_bg s \<and>
      ready_display (result_img u r p s) = ready_display s) \<and>
   (\<not> waiting s \<longrightarrow>
      (\<forall>es \<in> {[Ev_save, Ev_recv_img img], [Ev_recv_img img, Ev_save]}.
         drawing_canvas_bg (result_img u r p (run es s)) =
           (if result (yourself (result_img u r p (run es s))) then ''#67e088'' else ''red'') \<and>
         other_canvas_bg (result_img u r p (run es s)) =
           (if result (other_user (result_img u r p (run es s))) then ''#67e088'' else ''red'')))"
proof (intro conjI impI ballI)
  assume "\<not> (submitted (yourself s) \<and> submitted (other_user s))"
  then show "colour_results s = s"
    by (auto simp: colour_results_def)
next
  assume "submitted (yourself s) \<and> submitted (other_user s)"
  then show "ready_display (colour_results s) = ''block''"
    and "drawing_canvas_bg (colour_results s) = (if result (yourself s) then ''#67e088'' else ''red'')"
    and "other_canvas_bg (colour_results s) = (if result (other_user s) then ''#67e088'' else ''red'')"
    by (simp_all add: colour_results_def Let_def)
next
  assume "\<not> (submitted (yourself s) \<and> submitted (other_user s))"
  then show "drawing_canvas_bg (result_img u r p s) = drawing_canvas_bg s"
    and "other_canvas_bg (result_img u r p s) = other_canvas_bg s"
    and "ready_display (result_img u r p s) = ready_display s"
    using result_img_unsubmitted [of s u r p] by simp_all
next
  fix es
  assume "\<not> waiting s" and "es \<in> {[Ev_save, Ev_recv_img img], [Ev_recv_img img, Ev_save]}"
  then have both: "submitted (yourself (run es s))" "submitted (other_user (run es s))"
    using either_order_both_submitted [of s es img] by simp_all
  show "drawing_canvas_bg (result_img u r p (run es s)) =
           (if result (yourself (result_img u r p (run es s))) then ''#67e088'' else ''red'')"
    using result_img_colours [OF both] by blast
  show "other_canvas_bg (result_img u r p (run es s)) =
           (if result (other_user (result_img u r p (run es s))) then ''#67e088'' else ''red'')"
    using result_img_colours [OF both] by blast
qed

theorem colour_results_only_when_both_submitted_witness:
  "colour_results (other_connection ''peer'' 2 (page0 ''white'' ''inline'' 0 0))
     = other_connection ''peer'' 2 (page0 ''white'' ''inline'' 0 0) \<and>
   drawing_canvas_bg (result_img 0 True 5
      (run [Ev_recv_img [], Ev_save] (other_connection ''peer'' 2 (page0 ''white'' ''inline'' 0 0)))) = ''#67e088'' \<and>
   other_canvas_bg (result_img 0 True 5
      (run [Ev_recv_img [], Ev_save] (other_connection ''peer'' 2 (page0 ''white'' ''inline'' 0 0)))) = ''red''"
proof -
  have w: "\<not> waiting (other_connection ''peer'' 2 (page0 ''white'' ''inline'' 0 0))"
    by (simp add: other_connection_def)
  have u: "\<not> (submitted (yourself (other_connection ''peer'' 2 (page0 ''white'' ''inline'' 0 0))) \<and>
      submitted (other_user (other_connection ''peer'' 2 (page0 ''white'' ''inline'' 0 0))))"
    by (simp add: other_connection_def page0_def new_status_def)
  have r1: "result (yourself (result_img 0 True 5
      (run [Ev_recv_img [], Ev_save] (other_connection ''peer'' 2 (page0 ''white'' ''inline'' 0 0)))))"
    by (simp add: handler_defs page0_def new_status_def Let_def)
  have r2: "\<not> result (other_user (result_img 0 True 5
      (run [Ev_recv_img [], Ev_save] (other_connection ''peer'' 2 (page0 ''white'' ''inline'' 0 0)))))"
    by (simp add: handler_defs page0_def new_status_def Let_def)
  from colour_results_only_when_both_submitted
    [of "other_connection ''peer'' 2 (page0 ''white'' ''inline'' 0 0)" 0 True 5 "[]"] w u r1 r2
  show ?thesis by simp
qed



text \<open>
  Claim C3.  After three pointer-down, pointer-up strokes on a fresh canvas, \<open>save\<close> emits
  one \<open>image_submit\<close> message whose payload has exactly three entries; their keys are
  \<open>stroke1\<close>, \<open>stroke2\<close>, \<open>stroke3\<close> in lower case, not \<open>Stroke1\<close> to \<open>Stroke3\<close>.
\<close>

theorem three_strokes_submit_keys:
  "emitted (run [Ev_init, Ev_other_connection ''peer'' 2,
                 Ev_mouse Down 1 1, Ev_mouse Move 2 2, Ev_mouse Up 2 2,
                 Ev_mouse Down 5 5, Ev_mouse Move 5 9, Ev_mouse Up 5 9,
                 Ev_mouse Down 6 6, Ev_mouse Move 7 7, Ev_mouse Up 7 7,
                 Ev_save] (page0 ''white'' ''inline'' 0 0))
   = [Image_submit 0
        [(''stroke1'', [(1, 1, 2, 2)]),
         (''stroke2'', [(1, 1, 2, 2), (5, 5, 5, 9)]),
         (''stroke3'', [(1, 1, 2, 2), (5, 5, 5, 9), (6, 6, 7, 7)])] 0 0]"
  by (simp add: handler_defs page0_def new_status_def Let_def to_string.simps digit_char_def)

lemma findcoords_initialised:
  "initialised (findcoords m x y s) = initialised s \<and> listeners (findcoords m x y s) = listeners s"
  by (simp add: findcoords_def draw_def Let_def)

lemma mouse_initialised:
  "initialised ((findcoords m x y ^^ n) s) = initialised s \<and>
   listeners ((findcoords m x y ^^ n) s) = listeners s"
  by (induction n) (simp_all add: findcoords_initialised)

text \<open>\<open>init\<close> sets the canvas up, and no handler undoes it: every state of a session
  after \<open>init\<close> is initialised.\<close>

lemma handle_initialised: "initialised s \<Longrightarrow> initialised (handle e s)"
proof (cases e)
  case (Ev_mouse m x y)
  assume "initialised s"
  with Ev_mouse show ?thesis by (simp add: mouse_initialised)
qed (auto simp: handler_defs Let_def)

lemma run_initialised: "initialised s \<Longrightarrow> initialised (run es s)"
  by (induction es arbitrary: s) (simp_all add: handle_initialised)

lemma run_after_init: "initialised (run (es @ Ev_init # es') s)"
proof -
  have "run (es @ es'') s = run es'' (run es s)" for es''
    by (induction es arbitrary: s) simp_all
  then have "run (es @ Ev_init # es') s = run es' (init (run es s))" by simp
  then show ?thesis by (simp add: run_initialised init_def)
qed




lemma handle_canvas_untouched: "canvas_untouched s \<Longrightarrow> canvas_untouched (handle e s)"
proof (cases e)
  case (Ev_mouse m x y)
  assume u: "canvas_untouched s"
  show ?thesis
  proof (cases "initialised s")
    case True
    with Ev_mouse show ?thesis by (simp add: canvas_untouched_def mouse_initialised)
  next
    case False
    with u have "listeners s = 0" by (simp add: canvas_untouched_def)
    with u Ev_mouse show ?thesis by simp
  qed
qed (auto simp: canvas_untouched_def handler_defs Let_def)

lemma run_canvas_untouched: "canvas_untouched s \<Longrightarrow> canvas_untouched (run es s)"
  by (induction es arbitrary: s) (simp_all add: handle_canvas_untouched)

lemma page0_canvas_untouched: "canvas_untouched (page0 bg d ol ot)"
  by (simp add: canvas_untouched_def page0_def)

lemma save_waiting_state:
  "waiting s \<Longrightarrow>
   state_of (save s) =
     s\<lparr>snapshots := [], strokeNum := 0,
       drawing_canvas := (if initialised s then [] else drawing_canvas s)\<rparr>"
  by (simp add: save_def erase_def Let_def)

text \<open>
  Claim C9.  While \<open>waiting\<close> is still true, \<open>save\<close> emits nothing, leaves both status
  records (so the local \<open>submitted\<close> flag) and every control as they were, and clears the
  snapshot set and the stroke counter.  Where \<open>init\<close> has run it returns, with the canvas
  cleared as well and nothing else changed; where it has not, nothing has been drawn on
  the canvas, so in every state a session reaches the canvas is blank afterwards.
\<close>

theorem save_while_waiting_erases:
  assumes "waiting s"
  shows "emitted (state_of (save s)) = emitted s \<and>
         yourself (state_of (save s)) = yourself s \<and>
         other_user (state_of (save s)) = other_user s \<and>
         submitted (yourself (state_of (save s))) = submitted (yourself s) \<and>
         clr_display (state_of (save s)) = clr_display s \<and>
         submit_display (state_of (save s)) = submit_display s \<and>
         other_canvas_display (state_of (save s)) = other_canvas_display s \<and>
         snapshots (state_of (save s)) = [] \<and>
         strokeNum (state_of (save s)) = 0 \<and>
         state_of (save s) =
           s\<lparr>snapshots := [], strokeNum := 0,
             drawing_canvas := (if initialised s then [] else drawing_canvas s)\<rparr> \<and>
         (initialised s \<longrightarrow>
            save s = Returned (s\<lparr>snapshots := [], strokeNum := 0, drawing_canvas := []\<rparr>)) \<and>
         (s = run es (page0 bg d ol ot) \<longrightarrow> drawing_canvas (state_of (save s)) = [])"
proof -
  note st = save_waiting_state [OF assms]
  have r: "drawing_canvas (state_of (save s)) = []" if "s = run es (page0 bg d ol ot)"
  proof -
    from that have "canvas_untouched s"
      by (simp add: run_canvas_untouched page0_canvas_untouched)
    then show ?thesis
      unfolding st by (auto simp: canvas_untouched_def)
  qed
  have i: "save s = Returned (s\<lparr>snapshots := [], strokeNum := 0, drawing_canvas := []\<rparr>)"
    if "initialised s"
    using assms that by (simp add: save_def erase_def Let_def)
  show ?thesis
    using r i unfolding st by simp
qed

theorem save_while_waiting_erases_witness:
  "waiting (run [Ev_init, Ev_mouse Down 1 1, Ev_mouse Move 2 2, Ev_mouse Up 2 2] (page0 ''white'' ''inline'' 0 0)) \<and>
   snapshots (run [Ev_init, Ev_mouse Down 1 1, Ev_mouse Move 2 2, Ev_mouse Up 2 2] (page0 ''white'' ''inline'' 0 0))
     = [(''stroke1'', [(1, 1, 2, 2)])] \<and>
   snapshots (state_of (save
     (run [Ev_init, Ev_mouse Down 1 1, Ev_mouse Move 2 2, Ev_mouse Up 2 2] (page0 ''white'' ''inline'' 0 0)))) = [] \<and>
   drawing_canvas (state_of (save
     (run [Ev_init, Ev_mouse Down 1 1, Ev_mouse Move 2 2, Ev_mouse Up 2 2] (page0 ''white'' ''inline'' 0 0)))) = [] \<and>
   emitted (state_of (save
     (run [Ev_init, Ev_mouse Down 1 1, Ev_mouse Move 2 2, Ev_mouse Up 2 2] (page0 ''white'' ''inline'' 0 0)))) = [] \<and>
   \<not> submitted (yourself (state_of (save
     (run [Ev_init, Ev_mouse Down 1 1, Ev_mouse Move 2 2, Ev_mouse Up 2 2] (page0 ''white'' ''inline'' 0 0))))) \<and>
   waiting (page0 ''white'' ''inline'' 0 0) \<and>
   emitted (state_of (save (page0 ''white'' ''inline'' 0 0))) = [] \<and>
   drawing_canvas (state_of (save (page0 ''white'' ''inline'' 0 0))) = []"
proof -
  define sW where "sW = run [Ev_init, Ev_mouse Down 1 1, Ev_mouse Move 2 2, Ev_mouse Up 2 2] (page0 ''white'' ''inline'' 0 0)"
  define s0 where "s0 = page0 ''white'' ''inline'' 0 0"
  have w: "waiting sW" and sn: "snapshots sW = [(''stroke1'', [(1, 1, 2, 2)])]"
    and e: "emitted sW = []" and y: "\<not> submitted (yourself sW)"
    by (simp_all add: sW_def handler_defs page0_def new_status_def Let_def to_string.simps digit_char_def)
  have w0: "waiting s0" and e0: "emitted s0 = []"
    by (simp_all add: s0_def page0_def)
  have r: "sW = run [Ev_init, Ev_mouse Down 1 1, Ev_mouse Move 2 2, Ev_mouse Up 2 2] (page0 ''white'' ''inline'' 0 0)"
    by (rule sW_def)
  have r0: "s0 = run [] (page0 ''white'' ''inline'' 0 0)"
    by (simp add: s0_def)
  from save_while_waiting_erases [OF w, of "[Ev_init, Ev_mouse Down 1 1, Ev_mouse Move 2 2, Ev_mouse Up 2 2]" "''white''" "''inline''" 0 0]
    r e y
  have a: "snapshots (state_of (save sW)) = [] \<and> drawing_canvas (state_of (save sW)) = [] \<and>
      emitted (state_of (save sW)) = [] \<and> \<not> submitted (yourself (state_of (save sW)))"
    by metis
  from save_while_waiting_erases [OF w0, of "[]" "''white''" "''inline''" 0 0] r0 e0
  have b: "emitted (state_of (save s0)) = [] \<and> drawing_canvas (state_of (save s0)) = []"
    by metis
  from w sn a w0 b have "waiting sW \<and> snapshots sW = [(''stroke1'', [(1, 1, 2, 2)])] \<and>
      snapshots (state_of (save sW)) = [] \<and> drawing_canvas (state_of (save sW)) = [] \<and>
      emitted (state_of (save sW)) = [] \<and> \<not> submitted (yourself (state_of (save sW))) \<and>
      waiting s0 \<and> emitted (state_of (save s0)) = [] \<and> drawing_canvas (state_of (save s0)) = []"
    by blast
  then show ?thesis
    unfolding sW_def s0_def .
qed

section \<open>Properties of the chat controller\<close>

lemma bubble_outer_undefined: "bubble_outer Undefined x ob = Some ob"
  by (subst bubble_outer.simps) simp

lemma splice_fold: "fold (\<lambda>(k, v) sorted. v # sorted) ob acc = rev (map snd ob) @ acc"
  by (induction ob arbitrary: acc) (auto split: prod.splits)

lemma bubble_returns: "bubble ob = Some (rev (map snd ob))"
  by (simp add: bubble_def obj_length_def bubble_outer_undefined splice_fold)

lemma keys_obj_insert: "fst ` set (obj_insert k v ob) = insert k (fst ` set ob)"
  by (induction ob) (auto split: if_splits, force+)

lemma map_of_obj_insert: "k \<notin> fst ` set ob \<Longrightarrow> map_of (obj_insert k v ob) = (map_of ob)(k \<mapsto> v)"
  by (induction ob) (auto simp: fun_upd_twist)

lemma distinct_obj_insert:
  "k \<notin> fst ` set ob \<Longrightarrow> distinct (map fst ob) \<Longrightarrow> distinct (map fst (obj_insert k v ob))"
proof (induction ob)
  case Nil
  then show ?case by simp
next
  case (Cons a ob)
  then show ?case
    using keys_obj_insert [of k v ob] by (cases a) auto
qed

lemma map_of_obj_set: "map_of (obj_set k v ob) = (map_of ob)(k \<mapsto> v)"
  by (simp add: obj_set_def map_of_obj_insert update_conv')

lemma keys_obj_set: "fst ` set (obj_set k v ob) = insert k (fst ` set ob)"
proof -
  have "fst ` set (obj_set k v ob) = dom (map_of (obj_set k v ob))"
    by (simp add: dom_map_of_conv_image_fst)
  also have "\<dots> = insert k (dom (map_of ob))"
    by (simp add: map_of_obj_set)
  finally show ?thesis
    by (simp add: dom_map_of_conv_image_fst)
qed

lemma distinct_obj_set: "distinct (map fst ob) \<Longrightarrow> distinct (map fst (obj_set k v ob))"
  by (simp add: obj_set_def distinct_obj_insert distinct_update)


lemma add_messages_Cons:
  "add_messages (m # ms) ob = add_messages ms (obj_set (msg_time m) (msg_entry m) ob)"
  by (cases m) (simp add: add_messages_def msg_time_def msg_entry_def)

lemma add_messages_append: "add_messages (xs @ ys) ob = add_messages ys (add_messages xs ob)"
  by (simp add: add_messages_def)

lemma distinct_add_messages:
  "distinct (map fst ob) \<Longrightarrow> distinct (map fst (add_messages ms ob))"
proof (induction ms arbitrary: ob)
  case Nil
  then show ?case by (simp add: add_messages_def)
next
  case (Cons m ms)
  then show ?case by (simp add: add_messages_Cons distinct_obj_set)
qed

lemma keys_add_messages:
  "fst ` set (add_messages ms ob) = fst ` set ob \<union> msg_time ` set ms"
proof (induction ms arbitrary: ob)
  case Nil
  then show ?case by (simp add: add_messages_def)
next
  case (Cons m ms)
  then show ?case by (simp add: add_messages_Cons keys_obj_set)
qed

lemma map_of_add_messages:
  "map_of (add_messages ms ob) = map_of ob ++ map_of (rev (map (\<lambda>m. (msg_time m, msg_entry m)) ms))"
proof (induction ms arbitrary: ob)
  case Nil
  then show ?case by (simp add: add_messages_def)
next
  case (Cons m ms)
  have "map_of (add_messages (m # ms) ob)
      = (map_of ob)(msg_time m \<mapsto> msg_entry m) ++ map_of (rev (map (\<lambda>m. (msg_time m, msg_entry m)) ms))"
    unfolding add_messages_Cons Cons.IH map_of_obj_set ..
  also have "\<dots> = map_of ob ++ map_of (rev (map (\<lambda>m. (msg_time m, msg_entry m)) (m # ms)))"
    by (simp add: map_add_upd_left fun_eq_iff map_add_def split: option.splits)
  finally show ?case .
qed

lemma last_wins:
  "t \<in> msg_time ` set ms \<Longrightarrow>
   map_of (rev (map (\<lambda>m. (msg_time m, msg_entry m)) ms)) t
     = Some (msg_entry (last (filter (\<lambda>m. msg_time m = t) ms)))"
proof (induction ms rule: rev_induct)
  case Nil
  then show ?case by simp
next
  case (snoc m ms)
  show ?case
  proof (cases "msg_time m = t")
    case True
    then show ?thesis by simp
  next
    case False
    with snoc show ?thesis by auto
  qed
qed

lemma merge_messages_append:
  "merge_messages s = add_messages (yours_messages s @ others_messages s) []"
  by (simp add: merge_messages_def add_messages_append)

lemma map_of_Cons_other:
  "k \<noteq> k0 \<Longrightarrow> map_of ((k0, v0) # xs) k = map_of xs k"
  by simp

lemma values_by_key:
  "distinct (map fst xs) \<Longrightarrow> map snd xs = map (\<lambda>k. the (map_of xs k)) (map fst xs)"
proof (induction xs)
  case Nil
  then show ?case by simp
next
  case (Cons a xs)
  obtain k0 v0 where a: "a = (k0, v0)" by (cases a)
  from Cons.prems a have notin: "k0 \<notin> fst ` set xs" and d: "distinct (map fst xs)" by simp_all
  have "map (\<lambda>k. the (map_of ((k0, v0) # xs) k)) (map fst xs) = map (\<lambda>k. the (map_of xs k)) (map fst xs)"
  proof (rule map_cong [OF refl])
    fix k assume "k \<in> set (map fst xs)"
    with notin have ne: "k \<noteq> k0" by auto
    show "the (map_of ((k0, v0) # xs) k) = the (map_of xs k)"
      by (rule arg_cong [where f = the], rule map_of_Cons_other, rule ne)
  qed
  with Cons.IH [OF d] a show ?case by simp
qed

lemma merged_entries:
  fixes s :: chat
  defines "ms \<equiv> yours_messages s @ others_messages s"
  shows "mset (map snd (merge_messages s))
     = image_mset (\<lambda>t. msg_entry (last (filter (\<lambda>m. msg_time m = t) ms))) (mset_set (msg_time ` set ms))"
proof -
  let ?ob = "merge_messages s"
  have d: "distinct (map fst ?ob)"
    by (simp add: merge_messages_append distinct_add_messages)
  have k: "set (map fst ?ob) = msg_time ` set ms"
    using keys_add_messages [of ms "[]"] by (simp add: merge_messages_append ms_def)
  have "mset (map snd ?ob) = image_mset (\<lambda>k. the (map_of ?ob k)) (mset (map fst ?ob))"
    using values_by_key [OF d] by (metis mset_map)
  also have "mset (map fst ?ob) = mset_set (msg_time ` set ms)"
    using d k by (metis mset_set_set)
  also have "image_mset (\<lambda>k. the (map_of ?ob k)) (mset_set (msg_time ` set ms))
      = image_mset (\<lambda>t. msg_entry (last (filter (\<lambda>m. msg_time m = t) ms))) (mset_set (msg_time ` set ms))"
  proof (rule image_mset_cong)
    fix t assume "t \<in># mset_set (msg_time ` set ms)"
    then have "t \<in> msg_time ` set ms" by (simp add: elem_mset_set)
    then show "the (map_of ?ob t) = msg_entry (last (filter (\<lambda>m. msg_time m = t) ms))"
      using last_wins [of t ms] map_of_add_messages [of ms "[]"]
      by (simp add: merge_messages_append ms_def)
  qed
  finally show ?thesis .
qed

lemma merged_count:
  "length (merge_messages s) = card (msg_time ` set (yours_messages s @ others_messages s))"
proof -
  have d: "distinct (map fst (merge_messages s))"
    by (simp add: merge_messages_append distinct_add_messages)
  have k: "set (map fst (merge_messages s)) = msg_time ` set (yours_messages s @ others_messages s)"
    using keys_add_messages [of "yours_messages s @ others_messages s" "[]"]
    by (simp add: merge_messages_append)
  from distinct_card [OF d] k show ?thesis by simp
qed

lemma remove_node_present:
  "i \<in> node_id ` set c \<Longrightarrow>
   \<exists>c'. remove_node i c = Some c' \<and> mset (map node_id c) = add_mset i (mset (map node_id c'))"
proof (induction c)
  case Nil
  then show ?case by simp
next
  case (Cons n c)
  show ?case
  proof (cases "node_id n = i")
    case True
    then show ?thesis by simp
  next
    case False
    with Cons.prems have "i \<in> node_id ` set c" by auto
    from Cons.IH [OF this] obtain c' where
      "remove_node i c = Some c'" "mset (map node_id c) = add_mset i (mset (map node_id c'))"
      by blast
    with False show ?thesis by simp
  qed
qed

lemma remove_ids_tracked:
  "mset (map node_id c) = mset ids + M \<Longrightarrow>
   \<exists>c'. remove_ids ids c = Returned c' \<and> mset (map node_id c') = M"
proof (induction ids arbitrary: c)
  case Nil
  then show ?case by simp
next
  case (Cons i ids)
  then have "i \<in># mset (map node_id c)" by simp
  then have "i \<in> node_id ` set c" by simp
  from remove_node_present [OF this] obtain c1 where
    r: "remove_node i c = Some c1" and m: "mset (map node_id c) = add_mset i (mset (map node_id c1))"
    by blast
  from m Cons.prems have "mset (map node_id c1) = mset ids + M" by simp
  from Cons.IH [OF this] r show ?case by simp
qed

lemma your_ids_Suc: "your_ids (Suc n) = your_ids n @ [''your_message_'' @ to_string (Suc n)]"
  by (simp add: your_ids_def)

lemma other_ids_Suc: "other_ids (Suc n) = other_ids n @ [''other_message_'' @ to_string (Suc n)]"
  by (simp add: other_ids_def)

lemma display_message_ids:
  "mset (map node_id (container (display_message e s)))
     + mset (your_ids (your_ind s)) + mset (other_ids (other_ind s))
   = mset (map node_id (container s))
     + mset (your_ids (your_ind (display_message e s)))
     + mset (other_ids (other_ind (display_message e s)))"
  by (simp add: display_message_def Let_def your_ids_Suc other_ids_Suc)

lemma display_messages_ids:
  "mset (map node_id (container (display_messages l s)))
     + mset (your_ids (your_ind s)) + mset (other_ids (other_ind s))
   = mset (map node_id (container s))
     + mset (your_ids (your_ind (display_messages l s)))
     + mset (other_ids (other_ind (display_messages l s)))"
proof (induction l arbitrary: s)
  case Nil
  then show ?case by (simp add: display_messages_def)
next
  case (Cons e l)
  have unf: "display_messages (e # l) s = display_messages l (display_message e s)"
    by (simp add: display_messages_def)
  define s1 where "s1 = display_message e s"
  define A where "A = mset (map node_id (container (display_messages l s1)))"
  define C1 where "C1 = mset (map node_id (container s1))"
  define C0 where "C0 = mset (map node_id (container s))"
  define I0 where "I0 = mset (your_ids (your_ind s)) + mset (other_ids (other_ind s))"
  define I1 where "I1 = mset (your_ids (your_ind s1)) + mset (other_ids (other_ind s1))"
  define I2 where "I2 = mset (your_ids (your_ind (display_messages l s1)))
      + mset (other_ids (other_ind (display_messages l s1)))"
  have ih: "A + I1 = C1 + I2"
    using Cons.IH [of s1] by (simp add: A_def I1_def C1_def I2_def add.assoc)
  have st: "C1 + I0 = C0 + I1"
    using display_message_ids [of e s] by (simp add: s1_def C1_def I0_def C0_def I1_def add.assoc)
  have "(A + I0) + (C1 + I1) = (A + I1) + (C1 + I0)"
    by (simp add: ac_simps)
  also have "\<dots> = (C1 + I2) + (C0 + I1)"
    by (simp only: ih st)
  also have "\<dots> = (C0 + I2) + (C1 + I1)"
    by (simp add: ac_simps)
  finally have "A + I0 = C0 + I2"
    by (simp only: add_right_cancel)
  then show ?case
    by (simp add: unf s1_def A_def I0_def C0_def I2_def add.assoc)
qed

lemma display_message_frame:
  "(display_message e s)\<lparr>container := c, your_ind := a, other_ind := b\<rparr>
     = s\<lparr>container := c, your_ind := a, other_ind := b\<rparr>"
  by (simp add: display_message_def Let_def)

lemma display_messages_frame:
  "(display_messages l s)\<lparr>container := c, your_ind := a, other_ind := b\<rparr>
     = s\<lparr>container := c, your_ind := a, other_ind := b\<rparr>"
proof (induction l arbitrary: s)
  case Nil
  then show ?case by (simp add: display_messages_def)
next
  case (Cons e l)
  have "display_messages (e # l) s = display_messages l (display_message e s)"
    by (simp add: display_messages_def)
  with Cons.IH [of "display_message e s"] display_message_frame [where e = e and s = s]
  show ?case by simp
qed

lemma display_messages_texts:
  "map inner_html (container (display_messages l s)) = map inner_html (container s) @ map fst l"
proof (induction l arbitrary: s)
  case Nil
  then show ?case by (simp add: display_messages_def)
next
  case (Cons e l)
  have "display_messages (e # l) s = display_messages l (display_message e s)"
    by (simp add: display_messages_def)
  with Cons.IH [of "display_message e s"]
  show ?case by (simp add: display_message_def Let_def)
qed

lemma clear_tracked:
  assumes "tracked s"
  shows "clear_messages s = Returned (s\<lparr>container := [], your_ind := 0, other_ind := 0\<rparr>)"
  using assms
  by (auto simp: tracked_def clear_messages_def Let_def split: outcome.splits)

lemma tracked_by_ids:
  assumes "mset (map node_id (container s)) = mset (your_ids (your_ind s)) + mset (other_ids (other_ind s))"
  shows "tracked s"
proof -
  from remove_ids_tracked [OF assms] obtain c1 where
    c1: "remove_ids (your_ids (your_ind s)) (container s) = Returned c1"
    and m1: "mset (map node_id c1) = mset (other_ids (other_ind s))"
    by blast
  from m1 have "mset (map node_id c1) = mset (other_ids (other_ind s)) + {#}" by simp
  from remove_ids_tracked [OF this] obtain c2 where
    c2: "remove_ids (other_ids (other_ind s)) c1 = Returned c2" and m2: "mset (map node_id c2) = {#}"
    by blast
  from m2 have "c2 = []" by simp
  with c1 c2 show ?thesis
    by (simp add: tracked_def clear_messages_def Let_def)
qed

lemma display_from_empty_tracked:
  assumes "container s = []" and "your_ind s = 0" and "other_ind s = 0"
  shows "tracked (display_messages l s)"
proof (rule tracked_by_ids)
  from display_messages_ids [of l s] assms
  show "mset (map node_id (container (display_messages l s)))
      = mset (your_ids (your_ind (display_messages l s)))
        + mset (other_ids (other_ind (display_messages l s)))"
    by (simp add: your_ids_def other_ids_def)
qed

lemma merge_messages_frame:
  "merge_messages (s\<lparr>container := c, your_ind := a, other_ind := b\<rparr>) = merge_messages s"
  by (simp add: merge_messages_def)

lemma message_order_tracked:
  assumes "tracked s"
  shows "message_order s = Some (Returned
     (display_messages (rev (map snd (merge_messages s)))
        (s\<lparr>container := [], your_ind := 0, other_ind := 0\<rparr>)))"
  by (simp add: message_order_def clear_tracked [OF assms] message_order_list_def bubble_returns
      merge_messages_frame)

lemma rendered_tracked:
  "tracked (display_messages l (s\<lparr>container := [], your_ind := 0, other_ind := 0\<rparr>))"
  by (rule display_from_empty_tracked) simp_all

lemma rendered_frame:
  "(display_messages l (s\<lparr>container := [], your_ind := 0, other_ind := 0\<rparr>))
      \<lparr>container := [], your_ind := 0, other_ind := 0\<rparr>
   = s\<lparr>container := [], your_ind := 0, other_ind := 0\<rparr>"
  by (simp add: display_messages_frame)

lemma rendered_merge:
  "merge_messages (display_messages l (s\<lparr>container := [], your_ind := 0, other_ind := 0\<rparr>))
   = merge_messages s"
proof -
  let ?s1 = "display_messages l (s\<lparr>container := [], your_ind := 0, other_ind := 0\<rparr>)"
  have "merge_messages ?s1 = merge_messages (?s1\<lparr>container := [], your_ind := 0, other_ind := 0\<rparr>)"
    by (simp only: merge_messages_frame)
  also have "\<dots> = merge_messages s"
    by (simp only: rendered_frame merge_messages_frame)
  finally show ?thesis .
qed

lemma rerender_same:
  "message_order (display_messages (rev (map snd (merge_messages s)))
        (s\<lparr>container := [], your_ind := 0, other_ind := 0\<rparr>))
   = Some (Returned (display_messages (rev (map snd (merge_messages s)))
        (s\<lparr>container := [], your_ind := 0, other_ind := 0\<rparr>)))"
  by (simp only: message_order_tracked [OF rendered_tracked] rendered_frame rendered_merge)

text \<open>
  Claim C5.  On a consistent page (the message region holds exactly the nodes the two
  counters track), \<open>message_order\<close> returns, and running it again on the resulting page,
  with the same two message collections, returns that very page: the same ordered message
  list, the same nodes in the same order with the same texts, one node per entry of the
  list, so nothing is duplicated and nothing is left over.  The resulting page is
  consistent again.
\<close>

theorem chat_render_idempotent:
  assumes "tracked s"
  shows "\<exists>s1 out. message_order s = Some (Returned s1) \<and> message_order_list s = Some out \<and>
     message_order s1 = Some (Returned s1) \<and> message_order_list s1 = Some out \<and>
     map inner_html (container s1) = map fst out \<and> length (container s1) = length out \<and>
     tracked s1"
proof -
  define out where "out = rev (map snd (merge_messages s))"
  define s1 where "s1 = display_messages out (s\<lparr>container := [], your_ind := 0, other_ind := 0\<rparr>)"
  have first: "message_order s = Some (Returned s1)"
    using message_order_tracked [OF assms] by (simp add: s1_def out_def)
  have again: "message_order s1 = Some (Returned s1)"
    unfolding s1_def out_def by (rule rerender_same)
  have m: "merge_messages s1 = merge_messages s"
    unfolding s1_def by (rule rendered_merge)
  have l0: "message_order_list s = Some out"
    by (simp add: message_order_list_def bubble_returns out_def)
  have l1: "message_order_list s1 = Some out"
    by (simp add: message_order_list_def bubble_returns out_def m)
  have texts: "map inner_html (container s1) = map fst out"
    by (simp add: s1_def display_messages_texts)
  from texts have "length (map inner_html (container s1)) = length (map fst out)"
    by (rule arg_cong)
  then have len: "length (container s1) = length out" by simp
  have tr: "tracked s1"
    unfolding s1_def by (rule rendered_tracked)
  from first again l0 l1 texts len tr show ?thesis by blast
qed


theorem chat_render_idempotent_witness:
  "tracked (chat0\<lparr>yours_id := 1, others_id := 2,
       yours_messages := [(''first'', 10, 1), (''third'', 30, 1)],
       others_messages := [(''second'', 20, 2)]\<rparr>) \<and>
   (\<exists>s1 out. message_order (chat0\<lparr>yours_id := 1, others_id := 2,
       yours_messages := [(''first'', 10, 1), (''third'', 30, 1)],
       others_messages := [(''second'', 20, 2)]\<rparr>) = Some (Returned s1) \<and>
     message_order_list (chat0\<lparr>yours_id := 1, others_id := 2,
       yours_messages := [(''first'', 10, 1), (''third'', 30, 1)],
       others_messages := [(''second'', 20, 2)]\<rparr>) = Some out \<and>
     message_order s1 = Some (Returned s1) \<and> message_order_list s1 = Some out \<and>
     map inner_html (container s1) = map fst out \<and> length (container s1) = length out \<and>
     tracked s1)"
proof -
  have t: "tracked (chat0\<lparr>yours_id := 1, others_id := 2,
       yours_messages := [(''first'', 10, 1), (''third'', 30, 1)],
       others_messages := [(''second'', 20, 2)]\<rparr>)"
    by (simp add: tracked_def clear_messages_def chat0_def your_ids_def other_ids_def)
  from t chat_render_idempotent [OF t] show ?thesis by (rule conjI)
qed

lemma sorted_obj_insert:
  assumes "is_index k" and "\<forall>k' \<in> fst ` set ob. is_index k'" and "k \<notin> fst ` set ob"
    and "sorted_wrt (<) (map fst ob)"
  shows "sorted_wrt (<) (map fst (obj_insert k v ob))"
  using assms
proof (induction ob)
  case Nil
  then show ?case by simp
next
  case (Cons a ob)
  obtain k' v' where a: "a = (k', v')" by (cases a)
  show ?case
  proof (cases "k < k'")
    case True
    with Cons.prems a show ?thesis by (auto simp: image_iff)
  next
    case False
    with Cons.prems a have lt: "k' < k" by auto
    from Cons.prems a have ih: "sorted_wrt (<) (map fst (obj_insert k v ob))"
      by (intro Cons.IH) auto
    have "\<forall>x \<in> fst ` set (obj_insert k v ob). k' < x"
      using Cons.prems a lt by (auto simp: keys_obj_insert)
    with ih False Cons.prems a show ?thesis by simp
  qed
qed

lemma sorted_obj_set:
  assumes "is_index k" and "\<forall>k' \<in> fst ` set ob. is_index k'" and "sorted_wrt (<) (map fst ob)"
  shows "sorted_wrt (<) (map fst (obj_set k v ob))"
proof (cases "k \<in> fst ` set ob")
  case True
  then show ?thesis using assms by (simp add: obj_set_def update_keys)
next
  case False
  then show ?thesis using assms by (simp add: obj_set_def sorted_obj_insert)
qed

lemma sorted_add_messages:
  assumes "\<forall>m \<in> set ms. is_index (msg_time m)" and "\<forall>k' \<in> fst ` set ob. is_index k'"
    and "sorted_wrt (<) (map fst ob)"
  shows "sorted_wrt (<) (map fst (add_messages ms ob))"
  using assms
proof (induction ms arbitrary: ob)
  case Nil
  then show ?case by (simp add: add_messages_def)
next
  case (Cons m ms)
  have "sorted_wrt (<) (map fst (obj_set (msg_time m) (msg_entry m) ob))"
    using Cons.prems by (intro sorted_obj_set) simp_all
  moreover have "\<forall>k' \<in> fst ` set (obj_set (msg_time m) (msg_entry m) ob). is_index k'"
    using Cons.prems by (simp add: keys_obj_set)
  ultimately show ?case
    using Cons.prems by (simp add: add_messages_Cons Cons.IH)
qed

text \<open>
  Claim C4 (as amended).  The loops of \<open>bubble\<close> never run: the merge mapping has no
  \<open>length\<close>, so both loop guards are false from the start, nothing is compared or swapped
  and the mapping is left as it is.  \<open>bubble\<close> therefore returns for every mapping, with
  the values in the reverse of the order in which the mapping's keys are enumerated.  When
  every unix time is an array index (below \<open>2^32 - 1\<close>) that enumeration is ascending, so
  the result is ordered newest first.
\<close>

theorem bubble_loops_never_run:
  "(\<forall>x. \<not> js_lt x (obj_length to_sort)) \<and>
   bubble_outer (obj_length to_sort) 0 to_sort = Some to_sort \<and>
   bubble to_sort = Some (rev (map snd to_sort)) \<and>
   ((\<forall>m \<in> set ms. is_index (msg_time m)) \<longrightarrow>
      bubble (add_messages ms []) = Some (rev (map snd (add_messages ms []))) \<and>
      sorted_wrt (<) (map fst (add_messages ms [])))"
proof (intro conjI allI impI)
  fix x show "\<not> js_lt x (obj_length to_sort)"
    by (simp add: obj_length_def)
next
  show "bubble_outer (obj_length to_sort) 0 to_sort = Some to_sort"
    by (simp add: obj_length_def bubble_outer_undefined)
next
  show "bubble to_sort = Some (rev (map snd to_sort))"
    by (rule bubble_returns)
next
  show "bubble (add_messages ms []) = Some (rev (map snd (add_messages ms [])))"
    by (rule bubble_returns)
next
  assume "\<forall>m \<in> set ms. is_index (msg_time m)"
  then show "sorted_wrt (<) (map fst (add_messages ms []))"
    by (intro sorted_add_messages) simp_all
qed

theorem bubble_loops_never_run_witness:
  "is_index (msg_time (''first'', 10, 1)) \<and> is_index (msg_time (''third'', 30, 1)) \<and>
   is_index (msg_time (''second'', 20, 2)) \<and>
   add_messages [(''first'', 10, 1), (''third'', 30, 1), (''second'', 20, 2)] []
     = [(10, ''first'', 1), (20, ''second'', 2), (30, ''third'', 1)] \<and>
   bubble (add_messages [(''first'', 10, 1), (''third'', 30, 1), (''second'', 20, 2)] [])
     = Some [(''third'', 1), (''second'', 2), (''first'', 1)]"
proof -
  have i: "\<forall>m \<in> set [(''first'', 10::nat, 1::int), (''third'', 30, 1), (''second'', 20, 2)].
      is_index (msg_time m)"
    by (simp add: is_index_def msg_time_def)
  have a: "add_messages [(''first'', 10, 1), (''third'', 30, 1), (''second'', 20, 2)] []
     = [(10, ''first'', 1), (20, ''second'', 2), (30, ''third'', 1)]"
    by (simp add: add_messages_def obj_set_def is_index_def)
  have j: "is_index (msg_time (''first'', 10, 1)) \<and> is_index (msg_time (''third'', 30, 1)) \<and>
      is_index (msg_time (''second'', 20, 2))"
    by (simp add: is_index_def msg_time_def)
  from bubble_loops_never_run [of "[]" "[(''first'', 10, 1), (''third'', 30, 1), (''second'', 20, 2)]"] i a
  have "bubble (add_messages [(''first'', 10, 1), (''third'', 30, 1), (''second'', 20, 2)] [])
     = Some [(''third'', 1), (''second'', 2), (''first'', 1)]"
    by simp
  with j a show ?thesis by simp
qed

text \<open>The routine returns on a non-empty collection, and with the messages in time order
  (newest first, as its last loop arranges them).\<close>

theorem bubble_terminates_counterexample:
  "bubble (add_messages [(''second'', 20, 2)] (add_messages [(''first'', 10, 1), (''third'', 30, 1)] []))
     = Some [(''third'', 1), (''second'', 2), (''first'', 1)]"
  by (simp add: bubble_def obj_length_def bubble_outer_undefined
      add_messages_def obj_set_def is_index_def)

text \<open>
  Claim C10.  The merged view is keyed by unix time.  The list \<open>message_order\<close> renders
  holds one entry for each distinct time among the messages of both collections: the text
  and sender of the last message with that time, in the order the user's messages and then
  the other user's are enumerated.  Every earlier message with the same time is
  overwritten in the mapping and has no node on the page.
\<close>

theorem equal_timestamps_overwrite:
  "\<exists>out. message_order_list s = Some out \<and>
     mset out = image_mset
        (\<lambda>t. msg_entry (last (filter (\<lambda>m. msg_time m = t) (yours_messages s @ others_messages s))))
        (mset_set (msg_time ` set (yours_messages s @ others_messages s))) \<and>
     length out = card (msg_time ` set (yours_messages s @ others_messages s)) \<and>
     (tracked s \<longrightarrow>
        (\<exists>s1. message_order s = Some (Returned s1) \<and>
              map inner_html (container s1) = map fst out \<and>
              length (container s1) = card (msg_time ` set (yours_messages s @ others_messages s))))"
proof -
  define out where "out = rev (map snd (merge_messages s))"
  have l: "message_order_list s = Some out"
    by (simp add: message_order_list_def bubble_returns out_def)
  have m: "mset out = image_mset
        (\<lambda>t. msg_entry (last (filter (\<lambda>m. msg_time m = t) (yours_messages s @ others_messages s))))
        (mset_set (msg_time ` set (yours_messages s @ others_messages s)))"
    using merged_entries [of s] by (simp add: out_def)
  have n: "length out = card (msg_time ` set (yours_messages s @ others_messages s))"
    using merged_count [of s] by (simp add: out_def)
  have r: "\<exists>s1. message_order s = Some (Returned s1) \<and>
              map inner_html (container s1) = map fst out \<and>
              length (container s1) = card (msg_time ` set (yours_messages s @ others_messages s))"
    if t: "tracked s"
  proof -
    let ?s1 = "display_messages out (s\<lparr>container := [], your_ind := 0, other_ind := 0\<rparr>)"
    have a: "message_order s = Some (Returned ?s1)"
      using message_order_tracked [OF t] by (simp add: out_def)
    have b: "map inner_html (container ?s1) = map fst out"
      by (simp add: display_messages_texts)
    from b have "length (map inner_html (container ?s1)) = length (map fst out)"
      by (rule arg_cong)
    with n have c: "length (container ?s1) = card (msg_time ` set (yours_messages s @ others_messages s))"
      by simp
    from a b c show ?thesis by blast
  qed
  from l m n r show ?thesis by blast
qed

theorem equal_timestamps_overwrite_witness:
  "tracked (chat0\<lparr>yours_id := 1, others_id := 2, yours_messages := [(''mine'', 5, 1)],
       others_messages := [(''theirs'', 5, 2)]\<rparr>) \<and>
   message_order_list (chat0\<lparr>yours_id := 1, others_id := 2, yours_messages := [(''mine'', 5, 1)],
       others_messages := [(''theirs'', 5, 2)]\<rparr>) = Some [(''theirs'', 2)] \<and>
   (\<exists>s1. message_order (chat0\<lparr>yours_id := 1, others_id := 2, yours_messages := [(''mine'', 5, 1)],
       others_messages := [(''theirs'', 5, 2)]\<rparr>) = Some (Returned s1) \<and>
     map inner_html (container s1) = [''theirs''])"
proof -
  let ?s = "chat0\<lparr>yours_id := 1, others_id := 2, yours_messages := [(''mine'', 5, 1)],
       others_messages := [(''theirs'', 5, 2)]\<rparr>"
  have t: "tracked ?s"
    by (simp add: tracked_def clear_messages_def chat0_def your_ids_def other_ids_def)
  have l: "message_order_list ?s = Some [(''theirs'', 2)]"
    by (simp add: message_order_list_def bubble_def obj_length_def bubble_outer_undefined
        merge_messages_def add_messages_def obj_set_def is_index_def chat0_def)
  from equal_timestamps_overwrite [of ?s] t l
  have "\<exists>s1. message_order ?s = Some (Returned s1) \<and> map inner_html (container s1) = [''theirs'']"
    by auto
  with t l show ?thesis by blast
qed

section \<open>Properties of the matching game\<close>

lemma index_of_None_iff: "index_of x xs = None \<longleftrightarrow> x \<notin> set xs"
  by (induction xs) auto

lemma index_of_nth_distinct:
  "distinct xs \<Longrightarrow> i < length xs \<Longrightarrow> index_of (xs ! i) xs = Some i"
proof (induction xs arbitrary: i)
  case Nil
  then show ?case by simp
next
  case (Cons y ys)
  show ?case
  proof (cases i)
    case 0
    then show ?thesis by simp
  next
    case (Suc j)
    with Cons.prems have "ys ! j \<noteq> y" by auto
    with Cons Suc show ?thesis by simp
  qed
qed

lemma splice1_index_of: "x \<in> set xs \<Longrightarrow> splice1 (index_of x xs) xs = remove1 x xs"
proof (induction xs)
  case Nil
  then show ?case by simp
next
  case (Cons y ys)
  show ?case
  proof (cases "x = y")
    case True
    then show ?thesis by (simp add: splice1_def)
  next
    case False
    with Cons.prems have "x \<in> set ys" by simp
    then obtain k where k: "index_of x ys = Some k"
      using index_of_None_iff [of x ys] by (cases "index_of x ys") auto
    with Cons.IH [OF \<open>x \<in> set ys\<close>] False show ?thesis
      by (simp add: splice1_def)
  qed
qed

lemma index_of_append_new:
  "x \<notin> set xs \<Longrightarrow> index_of x (xs @ [x]) = Some (length xs)"
  by (induction xs) auto

lemma splice1_last: "x \<notin> set xs \<Longrightarrow> splice1 (index_of x (xs @ [x])) (xs @ [x]) = xs"
  by (simp add: index_of_append_new splice1_def)

lemma find_card_bound:
  "find_card i m = Some p \<Longrightarrow> p < length m \<and> card_id (held (m ! p)) = i"
proof (induction m arbitrary: p)
  case Nil
  then show ?case by simp
next
  case (Cons h hs)
  show ?case
  proof (cases "card_id (held h) = i")
    case True
    with Cons.prems have "p = 0" by simp
    with True show ?thesis by simp
  next
    case False
    with Cons.prems obtain q where q: "find_card i hs = Some q" and p: "p = Suc q"
      by (cases "find_card i hs") simp_all
    from Cons.IH [OF q] p show ?thesis by simp
  qed
qed

lemma find_card_ids:
  "map (\<lambda>h. card_id (held h)) m' = map (\<lambda>h. card_id (held h)) m \<Longrightarrow> find_card i m' = find_card i m"
proof (induction m arbitrary: m')
  case Nil
  then show ?case by simp
next
  case (Cons h hs)
  then obtain h' hs' where m': "m' = h' # hs'" by (cases m') simp_all
  with Cons.prems have hd: "card_id (held h') = card_id (held h)"
    and tl: "map (\<lambda>h. card_id (held h)) hs' = map (\<lambda>h. card_id (held h)) hs"
    by simp_all
  from Cons.IH [OF tl] hd m' show ?case by simp
qed

lemma set_card_ids:
  assumes "\<And>c. card_id (f c) = card_id c"
  shows "map (\<lambda>h. card_id (held h)) (set_card p f m) = map (\<lambda>h. card_id (held h)) m"
proof (rule nth_equalityI)
  show "length (map (\<lambda>h. card_id (held h)) (set_card p f m)) = length (map (\<lambda>h. card_id (held h)) m)"
    by (simp add: set_card_def)
next
  fix q assume "q < length (map (\<lambda>h. card_id (held h)) (set_card p f m))"
  then have q: "q < length m" by (simp add: set_card_def)
  show "map (\<lambda>h. card_id (held h)) (set_card p f m) ! q = map (\<lambda>h. card_id (held h)) m ! q"
  proof (cases "q = p")
    case True
    with q show ?thesis by (simp add: set_card_def assms)
  next
    case False
    with q show ?thesis by (simp add: set_card_def)
  qed
qed

lemma find_card_set_card:
  assumes "\<And>c. card_id (f c) = card_id c"
  shows "find_card i (set_card p f m) = find_card i m"
  by (rule find_card_ids) (rule set_card_ids, rule assms)



lemma compare_pair_equal:
  assumes "selected s = [Some a, Some b]" and "sound_of a = sound_of b"
    and "find_card (card_name (index_of a (characters s))) (matching s) = Some pa"
    and "find_card (card_name (index_of b (characters s))) (matching s) = Some pb"
  shows "compare_pair s = Returned
     (s\<lparr>selected := [], result_html := ''Correct!'', found := found s @ [a, b],
        matching := mark ''disabled_correct'' False pa pb (matching s),
        match_points := match_points s + 2,
        points_html := ''Points: '' @ int_string (match_points s + 2)\<rparr>)"
  using assms by (simp add: compare_pair_def Let_def mark_def)

lemma compare_pair_unequal:
  assumes "selected s = [Some a, Some b]" and "sound_of a \<noteq> sound_of b"
    and "find_card (card_name (index_of a (characters s))) (matching s) = Some pa"
    and "find_card (card_name (index_of b (characters s))) (matching s) = Some pb"
  shows "compare_pair s = Returned
     (s\<lparr>selected := [], result_html := ''Incorrect!'',
        matching := mark ''match_card'' True pa pb (matching s),
        not_allowed := splice1 (index_of (Some b) (splice1 (index_of (Some a) (not_allowed s)) (not_allowed s)))
                          (splice1 (index_of (Some a) (not_allowed s)) (not_allowed s))\<rparr>)"
  using assms by (simp add: compare_pair_def Let_def mark_def)

lemma tear_down_open: "length (found s) \<noteq> 10 \<Longrightarrow> tear_down s = Returned s"
  by (simp add: tear_down_def)

lemma tear_down_full:
  "length (found s) = 10 \<Longrightarrow>
   selected (state_of (tear_down s)) = selected s \<and> found (state_of (tear_down s)) = [] \<and>
   characters (state_of (tear_down s)) = [] \<and> not_allowed (state_of (tear_down s)) = [] \<and>
   match_points (state_of (tear_down s)) = match_points s"
  by (simp add: tear_down_def Let_def split: outcome.splits)

lemma select_card_found:
  assumes "find_card (''card_'' @ to_string x) (matching s) = Some p"
  shows "select_card x s = Returned
     (s\<lparr>selected := selected s @ [this_char_of x s],
        matching := set_card p (\<lambda>c. c\<lparr>class_name := ''disabled_selected''\<rparr>) (matching s),
        not_allowed := not_allowed s @ [this_char_of x s]\<rparr>)"
  using assms by (simp add: select_card_def Let_def)

lemma this_one_locked:
  "this_char_of x s \<in> set (not_allowed s) \<Longrightarrow> this_one x s = Returned s"
  by (simp add: this_one_def index_of_None_iff)

lemma this_one_free:
  "this_char_of x s \<notin> set (not_allowed s) \<Longrightarrow>
   this_one x s = (case select_card x s of Thrown t \<Rightarrow> Thrown t | Returned t \<Rightarrow> check t)"
  by (simp add: this_one_def index_of_None_iff)





lemma find_card_mark: "find_card i (mark cls on pa pb m) = find_card i m"
  by (simp add: mark_def find_card_set_card)

lemma game_ok_card:
  assumes "game_ok s" and "i < length (characters s)"
  shows "\<exists>p. find_card (''card_'' @ to_string (i + 1)) (matching s) = Some p"
proof -
  from assms(1) have "list_all (\<lambda>i. find_card (''card_'' @ to_string (i + 1)) (matching s) \<noteq> None)
        [0..<length (characters s)]"
    by (simp add: game_ok_def)
  with assms(2) have "find_card (''card_'' @ to_string (i + 1)) (matching s) \<noteq> None"
    by (simp add: list_all_iff)
  then show ?thesis by blast
qed

text \<open>What the second pick does, from the selection to the state the comparison leaves.\<close>

lemma second_pick_core:
  assumes ok: "game_ok s" and sel: "selected s = [Some a]"
    and x: "1 \<le> x" "x \<le> length (characters s)"
    and b: "b = characters s ! (x - 1)" and free: "Some b \<notin> set (not_allowed s)"
  shows "\<exists>ia pa pb.
     ia < length (characters s) \<and> characters s ! ia = a \<and>
     pa < length (matching s) \<and> pb < length (matching s) \<and>
     find_card (''card_'' @ to_string (ia + 1)) (matching s) = Some pa \<and>
     find_card (''card_'' @ to_string x) (matching s) = Some pb \<and>
     Some a \<in> set (not_allowed s) \<and> this_char_of x s = Some b \<and>
     select_card x s = Returned
       (s\<lparr>selected := [Some a, Some b],
          matching := set_card pb (\<lambda>c. c\<lparr>class_name := ''disabled_selected''\<rparr>) (matching s),
          not_allowed := not_allowed s @ [Some b]\<rparr>) \<and>
     (sound_of a = sound_of b \<longrightarrow>
        compare_pair
          (s\<lparr>selected := [Some a, Some b],
             matching := set_card pb (\<lambda>c. c\<lparr>class_name := ''disabled_selected''\<rparr>) (matching s),
             not_allowed := not_allowed s @ [Some b]\<rparr>) =
        Returned
          (s\<lparr>selected := [], not_allowed := not_allowed s @ [Some b],
             result_html := ''Correct!'', found := found s @ [a, b],
             matching := mark ''disabled_correct'' False pa pb
               (set_card pb (\<lambda>c. c\<lparr>class_name := ''disabled_selected''\<rparr>) (matching s)),
             match_points := match_points s + 2,
             points_html := ''Points: '' @ int_string (match_points s + 2)\<rparr>)) \<and>
     (sound_of a \<noteq> sound_of b \<longrightarrow>
        compare_pair
          (s\<lparr>selected := [Some a, Some b],
             matching := set_card pb (\<lambda>c. c\<lparr>class_name := ''disabled_selected''\<rparr>) (matching s),
             not_allowed := not_allowed s @ [Some b]\<rparr>) =
        Returned
          (s\<lparr>selected := [], not_allowed := remove1 (Some a) (not_allowed s),
             result_html := ''Incorrect!'',
             matching := mark ''match_card'' True pa pb
               (set_card pb (\<lambda>c. c\<lparr>class_name := ''disabled_selected''\<rparr>) (matching s))\<rparr>))"
proof -
  from ok have d: "distinct (characters s)" by (simp add: game_ok_def)
  from ok sel have la: "Some a \<in> set (not_allowed s)" and ina: "Some a \<in> Some ` set (characters s)"
    by (simp_all add: game_ok_def)
  from ina have "a \<in> set (characters s)" by auto
  then obtain ia where ia: "ia < length (characters s)" "characters s ! ia = a"
    by (auto simp: in_set_conv_nth)
  from x have xb: "x - 1 < length (characters s)" and x1: "x - 1 + 1 = x" by simp_all
  from game_ok_card [OF ok ia(1)] obtain pa where
    fa: "find_card (''card_'' @ to_string (ia + 1)) (matching s) = Some pa" by blast
  from game_ok_card [OF ok xb] obtain pb where
    "find_card (''card_'' @ to_string (x - 1 + 1)) (matching s) = Some pb" by blast
  then have fb: "find_card (''card_'' @ to_string x) (matching s) = Some pb"
    by (simp only: x1)
  from find_card_bound [OF fa] have pa: "pa < length (matching s)" by simp
  from find_card_bound [OF fb] have pb: "pb < length (matching s)" by simp
  from x xb b have tc: "this_char_of x s = Some b" by (simp add: this_char_of_def)
  let ?m0 = "set_card pb (\<lambda>c. c\<lparr>class_name := ''disabled_selected''\<rparr>) (matching s)"
  let ?t = "s\<lparr>selected := [Some a, Some b], matching := ?m0, not_allowed := not_allowed s @ [Some b]\<rparr>"
  have st: "select_card x s = Returned ?t"
    using select_card_found [OF fb] by (simp add: tc sel)
  have na: "card_name (index_of a (characters ?t)) = ''card_'' @ to_string (ia + 1)"
    using index_of_nth_distinct [OF d ia(1)] ia(2) by (simp add: card_name_def)
  have nb: "card_name (index_of b (characters ?t)) = ''card_'' @ to_string x"
    using index_of_nth_distinct [OF d xb] b x1 by (simp add: card_name_def)
  have 1: "find_card (card_name (index_of a (characters ?t))) (matching ?t) = Some pa"
    unfolding na using fa by (simp add: find_card_set_card)
  have 2: "find_card (card_name (index_of b (characters ?t))) (matching ?t) = Some pb"
    unfolding nb using fb by (simp add: find_card_set_card)
  have 3: "selected ?t = [Some a, Some b]" by simp
  have eq: "compare_pair ?t = Returned
          (s\<lparr>selected := [], not_allowed := not_allowed s @ [Some b],
             result_html := ''Correct!'', found := found s @ [a, b],
             matching := mark ''disabled_correct'' False pa pb ?m0,
             match_points := match_points s + 2,
             points_html := ''Points: '' @ int_string (match_points s + 2)\<rparr>)"
    if "sound_of a = sound_of b"
    unfolding compare_pair_equal [OF 3 that 1 2] by simp
  have r1: "splice1 (index_of (Some a) (not_allowed s @ [Some b])) (not_allowed s @ [Some b])
      = remove1 (Some a) (not_allowed s) @ [Some b]"
    using la by (simp add: splice1_index_of remove1_append)
  have nb': "Some b \<notin> set (remove1 (Some a) (not_allowed s))"
    using free by (metis notin_set_remove1)
  have r2: "splice1 (index_of (Some b) (remove1 (Some a) (not_allowed s) @ [Some b]))
        (remove1 (Some a) (not_allowed s) @ [Some b]) = remove1 (Some a) (not_allowed s)"
    using nb' by (rule splice1_last)
  have ne: "compare_pair ?t = Returned
          (s\<lparr>selected := [], not_allowed := remove1 (Some a) (not_allowed s),
             result_html := ''Incorrect!'',
             matching := mark ''match_card'' True pa pb ?m0\<rparr>)"
    if "sound_of a \<noteq> sound_of b"
    unfolding compare_pair_unequal [OF 3 that 1 2] by (simp add: r1 r2)
  from ia pa pb fa fb la tc st eq ne show ?thesis by blast
qed

lemma game_ok_game0: "game_ok (game0 cls d)"
  by (simp add: game_ok_def game0_def)

lemma game_ok_deselected:
  assumes "game_ok s" and "characters t = characters s"
    and "\<And>i. find_card i (matching t) = find_card i (matching s)" and "selected t = []"
    and "distinct (not_allowed t)"
  shows "game_ok t"
  using assms by (simp add: game_ok_def)

lemma game_ok_tear_down:
  assumes "game_ok s" and "selected s = []"
  shows "game_ok (state_of (tear_down s))"
proof (cases "length (found s) = 10")
  case True
  from tear_down_full [OF True] assms(2) show ?thesis
    by (simp add: game_ok_def)
next
  case False
  with assms(1) show ?thesis by (simp add: tear_down_open)
qed

lemma find_card_marked:
  "find_card i (mark cls on pa pb (set_card pb (\<lambda>c. c\<lparr>class_name := k\<rparr>) m)) = find_card i m"
  by (simp add: find_card_mark find_card_set_card)

lemma game_ok_this_one:
  assumes ok: "game_ok s" and x: "1 \<le> x" "x \<le> length (characters s)"
  shows "game_ok (state_of (this_one x s))"
proof (cases "this_char_of x s \<in> set (not_allowed s)")
  case True
  with ok show ?thesis by (simp add: this_one_locked)
next
  case False
  define b where "b = characters s ! (x - 1)"
  from x have xb: "x - 1 < length (characters s)" and x1: "x - 1 + 1 = x" by simp_all
  from x xb have tc: "this_char_of x s = Some b" by (simp add: this_char_of_def b_def)
  from False tc have free: "Some b \<notin> set (not_allowed s)" by simp
  from xb have bin: "Some b \<in> Some ` set (characters s)" by (simp add: b_def)
  from ok have len: "length (selected s) \<le> 1" and dn: "distinct (not_allowed s)"
    by (simp_all add: game_ok_def)
  show ?thesis
  proof (cases "selected s")
    case Nil
    from game_ok_card [OF ok xb] obtain p where
      "find_card (''card_'' @ to_string (x - 1 + 1)) (matching s) = Some p" by blast
    then have fp: "find_card (''card_'' @ to_string x) (matching s) = Some p" by (simp only: x1)
    let ?t = "s\<lparr>selected := selected s @ [this_char_of x s],
        matching := set_card p (\<lambda>c. c\<lparr>class_name := ''disabled_selected''\<rparr>) (matching s),
        not_allowed := not_allowed s @ [this_char_of x s]\<rparr>"
    have "this_one x s = check ?t"
      by (simp add: this_one_free [OF False] select_card_found [OF fp])
    also have "\<dots> = Returned ?t"
      by (simp add: check_def Nil)
    finally have r: "this_one x s = Returned ?t" .
    have "game_ok ?t"
      using ok bin free by (simp add: game_ok_def Nil tc find_card_set_card)
    with r show ?thesis by simp
  next
    case (Cons c cs)
    with len have cs: "cs = []" by simp
    from ok Cons have "c \<in> Some ` set (characters s)" by (simp add: game_ok_def)
    then obtain a where a: "c = Some a" by auto
    from Cons cs a have sel: "selected s = [Some a]" by simp
    from second_pick_core [OF ok sel x b_def free] obtain ia pa pb where
      st: "select_card x s = Returned
       (s\<lparr>selected := [Some a, Some b],
          matching := set_card pb (\<lambda>c. c\<lparr>class_name := ''disabled_selected''\<rparr>) (matching s),
          not_allowed := not_allowed s @ [Some b]\<rparr>)"
      and eq: "sound_of a = sound_of b \<longrightarrow>
        compare_pair
          (s\<lparr>selected := [Some a, Some b],
             matching := set_card pb (\<lambda>c. c\<lparr>class_name := ''disabled_selected''\<rparr>) (matching s),
             not_allowed := not_allowed s @ [Some b]\<rparr>) =
        Returned
          (s\<lparr>selected := [], not_allowed := not_allowed s @ [Some b],
             result_html := ''Correct!'', found := found s @ [a, b],
             matching := mark ''disabled_correct'' False pa pb
               (set_card pb (\<lambda>c. c\<lparr>class_name := ''disabled_selected''\<rparr>) (matching s)),
             match_points := match_points s + 2,
             points_html := ''Points: '' @ int_string (match_points s + 2)\<rparr>)"
      and ne: "sound_of a \<noteq> sound_of b \<longrightarrow>
        compare_pair
          (s\<lparr>selected := [Some a, Some b],
             matching := set_card pb (\<lambda>c. c\<lparr>class_name := ''disabled_selected''\<rparr>) (matching s),
             not_allowed := not_allowed s @ [Some b]\<rparr>) =
        Returned
          (s\<lparr>selected := [], not_allowed := remove1 (Some a) (not_allowed s),
             result_html := ''Incorrect!'',
             matching := mark ''match_card'' True pa pb
               (set_card pb (\<lambda>c. c\<lparr>class_name := ''disabled_selected''\<rparr>) (matching s))\<rparr>)"
      by blast
    let ?t = "s\<lparr>selected := [Some a, Some b],
          matching := set_card pb (\<lambda>c. c\<lparr>class_name := ''disabled_selected''\<rparr>) (matching s),
          not_allowed := not_allowed s @ [Some b]\<rparr>"
    have ch: "this_one x s = check ?t"
      by (simp add: this_one_free [OF False] st)
    show ?thesis
    proof (cases "sound_of a = sound_of b")
      case True
      let ?s' = "s\<lparr>selected := [], not_allowed := not_allowed s @ [Some b],
             result_html := ''Correct!'', found := found s @ [a, b],
             matching := mark ''disabled_correct'' False pa pb
               (set_card pb (\<lambda>c. c\<lparr>class_name := ''disabled_selected''\<rparr>) (matching s)),
             match_points := match_points s + 2,
             points_html := ''Points: '' @ int_string (match_points s + 2)\<rparr>"
      from eq True have "compare_pair ?t = Returned ?s'" by blast
      then have r: "this_one x s = tear_down ?s'"
        unfolding ch by (simp add: check_def)
      have "game_ok ?s'"
        by (rule game_ok_deselected [OF ok]) (simp_all add: find_card_marked dn free)
      then have "game_ok (state_of (tear_down ?s'))"
        by (rule game_ok_tear_down) simp
      then show ?thesis by (simp only: r)
    next
      case False
      let ?s' = "s\<lparr>selected := [], not_allowed := remove1 (Some a) (not_allowed s),
             result_html := ''Incorrect!'',
             matching := mark ''match_card'' True pa pb
               (set_card pb (\<lambda>c. c\<lparr>class_name := ''disabled_selected''\<rparr>) (matching s))\<rparr>"
      from ne False have "compare_pair ?t = Returned ?s'" by blast
      then have r: "this_one x s = tear_down ?s'"
        unfolding ch by (simp add: check_def)
      have "game_ok ?s'"
        by (rule game_ok_deselected [OF ok]) (simp_all add: find_card_marked dn free)
      then have "game_ok (state_of (tear_down ?s'))"
        by (rule game_ok_tear_down) simp
      then show ?thesis by (simp only: r)
    qed
  qed
qed

lemma find_card_exists:
  "h \<in> set m \<Longrightarrow> card_id (held h) = i \<Longrightarrow> find_card i m \<noteq> None"
proof (induction m)
  case Nil
  then show ?case by simp
next
  case (Cons g m)
  show ?case
  proof (cases "card_id (held g) = i")
    case True
    then show ?thesis by simp
  next
    case False
    with Cons.prems have "h \<in> set m" by auto
    from Cons.IH [OF this Cons.prems(2)] False show ?thesis by simp
  qed
qed

lemma dealt_slots:
  "map slot (map (\<lambda>(i, (a, b)). \<lparr>origin = r, slot = i, shown = a, sound_of = b\<rparr>) (zip [0..<length l] l))
     = [0..<length l]"
proof -
  have "map slot (map (\<lambda>(i, (a, b)). \<lparr>origin = r, slot = i, shown = a, sound_of = b\<rparr>) (zip [0..<length l] l))
      = map fst (zip [0..<length l] l)"
    by (simp add: case_prod_unfold o_def)
  also have "\<dots> = [0..<length l]"
    by (simp only: map_fst_zip length_upt diff_zero)
  finally show ?thesis .
qed

lemma dealt_distinct:
  "distinct (map (\<lambda>(i, (a, b)). \<lparr>origin = r, slot = i, shown = a, sound_of = b\<rparr>) (zip [0..<length l] l))"
proof (rule distinct_map [THEN iffD1, THEN conjunct1])
  show "distinct (map slot (map (\<lambda>(i, (a, b)). \<lparr>origin = r, slot = i, shown = a, sound_of = b\<rparr>)
      (zip [0..<length l] l)))"
    by (simp only: dealt_slots distinct_upt)
qed

lemma dealt_card:
  assumes "i < length cs"
  shows "find_card (''card_'' @ to_string (i + 1))
     (m @ map (\<lambda>(i, c). new_holder cls (i + 1) c) (zip [0..<length cs] cs)) \<noteq> None"
proof (rule find_card_exists)
  have "i < length (zip [0..<length cs] cs)"
    using assms by simp
  then have "zip [0..<length cs] cs ! i \<in> set (zip [0..<length cs] cs)"
    by (rule nth_mem)
  moreover have "zip [0..<length cs] cs ! i = (i, cs ! i)"
    using assms by simp
  ultimately have mem: "(i, cs ! i) \<in> set (zip [0..<length cs] cs)"
    by simp
  show "new_holder cls (i + 1) (cs ! i)
      \<in> set (m @ map (\<lambda>(i, c). new_holder cls (i + 1) c) (zip [0..<length cs] cs))"
    by (simp only: set_append set_map) (rule UnI2, rule image_eqI [OF _ mem], simp)
  show "card_id (held (new_holder cls (i + 1) (cs ! i))) = ''card_'' @ to_string (i + 1)"
    by (simp add: new_holder_def)
qed

lemma game_ok_character_list:
  assumes "selected s = []" and "distinct (not_allowed s)"
  shows "game_ok (character_list l s)"
proof -
  let ?cs = "map (\<lambda>(i, (a, b)). \<lparr>origin = received s, slot = i, shown = a, sound_of = b\<rparr>)
      (zip [0..<length l] l)"
  let ?m = "matching s @ map (\<lambda>(i, c). new_holder (template_class s) (i + 1) c) (zip [0..<length ?cs] ?cs)"
  have c: "characters (character_list l s) = ?cs" and m: "matching (character_list l s) = ?m"
    and e: "selected (character_list l s) = []"
    and n: "distinct (not_allowed (character_list l s))"
    using assms by (simp_all add: character_list_def Let_def)
  have 1: "distinct ?cs" by (rule dealt_distinct)
  have 2: "list_all (\<lambda>i. find_card (''card_'' @ to_string (i + 1)) ?m \<noteq> None) [0..<length ?cs]"
    unfolding list_all_iff using dealt_card [of _ ?cs "matching s" "template_class s"]
    by (simp del: map_map length_map)
  show ?thesis
    unfolding game_ok_def c m e using 1 2 n by simp
qed




text \<open>The tenth card of a deck of ten: the comparison leaves ten entries in \<open>found\<close>,
  and the tear-down that follows it in \<open>check\<close> empties \<open>characters\<close>, \<open>found\<close> and
  \<open>not_allowed\<close> and removes the ten card holders.\<close>

lemma full_deck_torn_down:
  "game_ok (clicks [1, 2, 3, 4, 5, 6, 7, 8, 9]
       (character_list [(''A'', ''a''), (''a'', ''a''), (''I'', ''i''), (''i'', ''i''), (''U'', ''u''),
          (''u'', ''u''), (''E'', ''e''), (''e'', ''e''), (''O'', ''o''), (''o'', ''o'')]
          (game0 ''match_card'' ''none''))) \<and>
   found (state_of (this_one 10
     (clicks [1, 2, 3, 4, 5, 6, 7, 8, 9]
       (character_list [(''A'', ''a''), (''a'', ''a''), (''I'', ''i''), (''i'', ''i''), (''U'', ''u''),
          (''u'', ''u''), (''E'', ''e''), (''e'', ''e''), (''O'', ''o''), (''o'', ''o'')]
          (game0 ''match_card'' ''none''))))) = [] \<and>
   matching (state_of (this_one 10
     (clicks [1, 2, 3, 4, 5, 6, 7, 8, 9]
       (character_list [(''A'', ''a''), (''a'', ''a''), (''I'', ''i''), (''i'', ''i''), (''U'', ''u''),
          (''u'', ''u''), (''E'', ''e''), (''e'', ''e''), (''O'', ''o''), (''o'', ''o'')]
          (game0 ''match_card'' ''none''))))) = [] \<and>
   match_points (state_of (this_one 10
     (clicks [1, 2, 3, 4, 5, 6, 7, 8, 9]
       (character_list [(''A'', ''a''), (''a'', ''a''), (''I'', ''i''), (''i'', ''i''), (''U'', ''u''),
          (''u'', ''u''), (''E'', ''e''), (''e'', ''e''), (''O'', ''o''), (''o'', ''o'')]
          (game0 ''match_card'' ''none''))))) = 10"
  by code_simp

section \<open>Properties of the list and table controllers\<close>

lemma shape_Cons: "shape (b # bs) = (box_id b, secondary_id b, meaning_id b) # shape bs"
  by (simp add: shape_def)

lemma shape_append: "shape (r @ r') = shape r @ shape r'"
  by (simp add: shape_def)

lemma append_to_box_ok:
  "i \<in> box_id ` set r \<Longrightarrow> \<exists>r'. append_to_box i e r = Some r' \<and> shape r' = shape r"
proof (induction r)
  case Nil
  then show ?case by simp
next
  case (Cons b bs)
  show ?case
  proof (cases "box_id b = i")
    case True
    then show ?thesis by (simp add: shape_Cons)
  next
    case False
    with Cons.prems have "i \<in> box_id ` set bs" by simp
    from Cons.IH [OF this] obtain r' where "append_to_box i e bs = Some r'" "shape r' = shape bs"
      by blast
    with False show ?thesis by (simp add: shape_Cons)
  qed
qed

lemma find_kind_ok:
  "i \<in> secondary_id ` set r \<or> i \<in> meaning_id ` set r \<Longrightarrow> \<exists>k. find_kind i r = Some k"
proof (induction r)
  case Nil
  then show ?case by simp
next
  case (Cons b bs)
  show ?case
  proof (cases "primary_id b = i \<or> secondary_id b = i \<or> meaning_id b = i")
    case True
    then show ?thesis by auto
  next
    case False
    with Cons.prems have "i \<in> secondary_id ` set bs \<or> i \<in> meaning_id ` set bs" by auto
    from Cons.IH [OF this] obtain k where "find_kind i bs = Some k" by blast
    with False show ?thesis by (cases "find_line i (appended b)") simp_all
  qed
qed

lemma shape_ids:
  "shape r' = shape r \<Longrightarrow>
   box_id ` set r' = box_id ` set r \<and> secondary_id ` set r' = secondary_id ` set r \<and>
   meaning_id ` set r' = meaning_id ` set r"
proof -
  assume a: "shape r' = shape r"
  have b: "box_id ` set q = fst ` set (shape q)" for q
    by (simp add: shape_def image_image)
  have c: "secondary_id ` set q = (fst \<circ> snd) ` set (shape q)" for q
    by (simp add: shape_def image_image)
  have d: "meaning_id ` set q = (snd \<circ> snd) ` set (shape q)" for q
    by (simp add: shape_def image_image)
  show ?thesis by (simp only: a b c d)
qed

lemma add_lines_ok:
  assumes "box \<in> box_id ` set r" and "src \<in> secondary_id ` set r \<or> src \<in> meaning_id ` set r"
  shows "\<exists>r'. add_lines src box y ts r = Returned r' \<and> shape r' = shape r"
  using assms
proof (induction ts arbitrary: y r)
  case Nil
  then show ?case by simp
next
  case (Cons t ts)
  from find_kind_ok [OF Cons.prems(2)] obtain k where k: "find_kind src r = Some k" by blast
  from append_to_box_ok [OF Cons.prems(1)] obtain r1 where
    r1: "append_to_box box \<lparr>elem_id = src @ to_string (y + 1), cloned_of = k, elem_html = t\<rparr> r = Some r1"
    and s1: "shape r1 = shape r"
    by blast
  from shape_ids [OF s1] Cons.prems have "box \<in> box_id ` set r1"
    and "src \<in> secondary_id ` set r1 \<or> src \<in> meaning_id ` set r1"
    by simp_all
  from Cons.IH [OF this] obtain r' where "add_lines src box (y + 1) ts r1 = Returned r'" "shape r' = shape r1"
    by blast
  with k r1 s1 show ?case by simp
qed

lemma render_entry_ok:
  "\<exists>r'. render_entry x e r = Returned r' \<and>
        shape r' = shape r @ [(''search_result_'' @ to_string x, ''secondary_'' @ to_string x,
                               ''meaning_'' @ to_string x)]"
proof -
  let ?box = "''search_result_'' @ to_string x"
  let ?r1 = "r @ [new_box x e]"
  have sh1: "shape ?r1 = shape r @ [(?box, ''secondary_'' @ to_string x, ''meaning_'' @ to_string x)]"
    by (simp add: shape_def new_box_def)
  have in1: "?box \<in> box_id ` set ?r1" and sec1: "''secondary_'' @ to_string x \<in> secondary_id ` set ?r1"
    and mean1: "''meaning_'' @ to_string x \<in> meaning_id ` set ?r1"
    by (simp_all add: new_box_def)
  from append_to_box_ok [OF in1] obtain r2 where
    r2: "append_to_box ?box (heading ''Other Readings:'') ?r1 = Some r2" and s2: "shape r2 = shape ?r1"
    by blast
  from shape_ids [OF s2] in1 sec1 have "?box \<in> box_id ` set r2"
    and "''secondary_'' @ to_string x \<in> secondary_id ` set r2 \<or> ''secondary_'' @ to_string x \<in> meaning_id ` set r2"
    by simp_all
  from add_lines_ok [OF this] obtain r3 where
    r3: "add_lines (''secondary_'' @ to_string x) ?box 0 (Readings e) r2 = Returned r3"
    and s3: "shape r3 = shape r2"
    by blast
  from shape_ids [OF s3] shape_ids [OF s2] in1 have in3: "?box \<in> box_id ` set r3" by simp
  from append_to_box_ok [OF in3] obtain r4 where
    r4: "append_to_box ?box (heading ''Meanings:'') r3 = Some r4" and s4: "shape r4 = shape r3"
    by blast
  from shape_ids [OF s4] shape_ids [OF s3] shape_ids [OF s2] in1 mean1 have "?box \<in> box_id ` set r4"
    and "''meaning_'' @ to_string x \<in> secondary_id ` set r4 \<or> ''meaning_'' @ to_string x \<in> meaning_id ` set r4"
    by simp_all
  from add_lines_ok [OF this] obtain r5 where
    r5: "add_lines (''meaning_'' @ to_string x) ?box 0 (Meanings e) r4 = Returned r5"
    and s5: "shape r5 = shape r4"
    by blast
  have "render_entry x e r = Returned r5"
    by (simp only: render_entry_def Let_def r2 r3 r4 r5 option.case outcome.case)
  moreover have "shape r5 = shape r @ [(?box, ''secondary_'' @ to_string x, ''meaning_'' @ to_string x)]"
    by (simp only: s5 s4 s3 s2 sh1)
  ultimately show ?thesis by blast
qed

lemma render_entries_ok:
  "\<exists>s'. render_entries x es s = Returned s' \<and>
        map box_id (search_results s') =
          map box_id (search_results s) @ map (\<lambda>z. ''search_result_'' @ to_string z) [x + 1..<x + 1 + length es] \<and>
        current_index s' = (if es = [] then current_index s else x + length es)"
proof (induction es arbitrary: x s)
  case Nil
  then show ?case by simp
next
  case (Cons e es)
  from render_entry_ok [of "x + 1" e "search_results s"] obtain r where
    r: "render_entry (x + 1) e (search_results s) = Returned r"
    and sh: "shape r = shape (search_results s) @
        [(''search_result_'' @ to_string (x + 1), ''secondary_'' @ to_string (x + 1),
          ''meaning_'' @ to_string (x + 1))]"
    by blast
  have ids: "map box_id q = map fst (shape q)" for q
    by (simp add: shape_def)
  from sh have b: "map box_id r = map box_id (search_results s) @ [''search_result_'' @ to_string (x + 1)]"
    by (simp add: ids)
  define ys where "ys = [x + 1 + 1..<x + 1 + 1 + length es]"
  let ?s1 = "s\<lparr>search_results := r, current_index := x + 1\<rparr>"
  from Cons.IH [of "x + 1" ?s1] obtain s' where
    s': "render_entries (x + 1) es ?s1 = Returned s'"
    and m: "map box_id (search_results s') =
          map box_id (search_results ?s1) @ map (\<lambda>z. ''search_result_'' @ to_string z) ys"
    and c: "current_index s' = (if es = [] then current_index ?s1 else x + 1 + length es)"
    unfolding ys_def by blast
  have e1: "x + 1 + length (e # es) = x + 1 + 1 + length es" by simp
  have e2: "Suc (x + 1) = x + 1 + 1" by simp
  have "x + 1 < x + 1 + 1 + length es" by simp
  from upt_conv_Cons [OF this]
  have u: "[x + 1..<x + 1 + length (e # es)] = (x + 1) # ys"
    by (simp only: ys_def e1 e2)
  have sr1: "search_results ?s1 = r" by simp
  have "render_entries x (e # es) s = Returned s'"
    using r s' by simp
  moreover have "map box_id (search_results s') =
          map box_id (search_results s) @
          map (\<lambda>z. ''search_result_'' @ to_string z) [x + 1..<x + 1 + length (e # es)]"
    by (simp only: u m sr1 b list.map append_assoc append.simps)
  moreover have "current_index s' = (if e # es = [] then current_index s else x + length (e # es))"
    using c by (cases es) simp_all
  ultimately show ?case by blast
qed

lemma remove_boxes_all: "remove_boxes (map box_id r) r = Returned []"
  by (induction r) simp_all

lemma dictionary_fresh: "s\<lparr>search_results := [], current_index := 0\<rparr> = dictionary0"
  by (cases s) (simp add: dictionary0_def)

lemma dictionary0_index: "current_index dictionary0 = 0"
  by (simp add: dictionary0_def)

lemma dictionary_results_tracked:
  assumes "dict_tracked s"
  shows "dictionary_results entries s = render_entries 0 entries dictionary0"
  using assms
  by (simp add: dictionary_results_def dict_tracked_def dictionary_fresh dictionary0_index Let_def)

lemma render_from_empty:
  "\<exists>s'. render_entries 0 entries dictionary0 = Returned s' \<and> current_index s' = length entries \<and>
        length (search_results s') = length entries \<and> dict_tracked s'"
proof -
  define ys where "ys = [0 + 1..<0 + 1 + length entries]"
  from render_entries_ok [of 0 entries dictionary0] obtain s' where
    r: "render_entries 0 entries dictionary0 = Returned s'"
    and m: "map box_id (search_results s') =
          map box_id (search_results dictionary0) @ map (\<lambda>z. ''search_result_'' @ to_string z) ys"
    and c: "current_index s' = (if entries = [] then current_index dictionary0 else 0 + length entries)"
    unfolding ys_def by blast
  from c have c': "current_index s' = length entries"
    by (cases entries) (simp_all add: dictionary0_def)
  have "length ys = 0 + 1 + length entries - (0 + 1)"
    by (simp only: ys_def length_upt)
  then have ly: "length ys = length entries" by simp
  have m': "map box_id (search_results s') = map (\<lambda>z. ''search_result_'' @ to_string z) ys"
    using m by (simp add: dictionary0_def)
  have "length (map box_id (search_results s')) = length ys"
    by (simp only: m' length_map)
  then have l: "length (search_results s') = length entries"
    by (simp only: length_map ly)
  have "[1..<Suc (length entries)] = ys"
    by (simp only: ys_def add_0 plus_1_eq_Suc)
  then have "box_ids (current_index s') = map (\<lambda>z. ''search_result_'' @ to_string z) ys"
    by (simp only: box_ids_def c')
  then have "box_ids (current_index s') = map box_id (search_results s')"
    by (simp only: m')
  then have "dict_tracked s'"
    by (simp only: dict_tracked_def remove_boxes_all)
  with r c' l show ?thesis by blast
qed

lemma leaderboard_rows_append:
  "leaderboard_rows x users rows = rows @ leaderboard_rows x users []"
proof (induction users arbitrary: x rows)
  case Nil
  then show ?case by simp
next
  case (Cons u users)
  obtain name pts where u: "u = (name, pts)" by (cases u)
  show ?case
    unfolding u leaderboard_rows.simps
    by (subst Cons.IH) (subst (2) Cons.IH, simp)
qed

lemma add_user_list:
  "request_results_list (add_user u s) =
     request_results_list s @
       [\<lparr>row_id = ''request_result_'' @ int_string (profile_x s + 1), row_display = ''block'',
         row_name = snd u, row_button_id = ''final_req_'' @ int_string (fst u)\<rparr>]"
  by (simp add: add_user_def Let_def)

lemma add_user_x: "profile_x (add_user u s) = profile_x s + 1"
  by (simp add: add_user_def Let_def)

lemma fold_add_user_append:
  "profile_x s = profile_x t \<Longrightarrow>
   request_results_list (fold add_user users s) =
     request_results_list s @ drop (length (request_results_list t)) (request_results_list (fold add_user users t))"
proof (induction users arbitrary: s t)
  case Nil
  then show ?case by simp
next
  case (Cons u users)
  have x: "profile_x (add_user u s) = profile_x (add_user u t)"
    using Cons.prems by (simp add: add_user_x)
  have a: "request_results_list (fold add_user users (add_user u s)) =
      request_results_list (add_user u s) @
      drop (length (request_results_list (add_user u t))) (request_results_list (fold add_user users (add_user u t)))"
    by (rule Cons.IH [OF x])
  have b: "request_results_list (fold add_user users (add_user u t)) =
      request_results_list (add_user u t) @
      drop (length (request_results_list (add_user u t))) (request_results_list (fold add_user users (add_user u t)))"
    by (rule Cons.IH [OF refl])
  have "drop (length (request_results_list t)) (request_results_list (fold add_user users (add_user u t)))
      = drop (length (request_results_list t)) (request_results_list (add_user u t)) @
        drop (length (request_results_list (add_user u t))) (request_results_list (fold add_user users (add_user u t)))"
    by (subst b) (simp add: add_user_list)
  then show ?case
    using a Cons.prems by (simp add: add_user_list)
qed

lemma found_users_append:
  "request_results_list (found_users users s) =
     request_results_list s @
       request_results_list (found_users users \<lparr>profile_x = x0, request_results_list = []\<rparr>)"
proof (cases "users = []")
  case True
  then show ?thesis by (simp add: found_users_def)
next
  case False
  then show ?thesis
    using fold_add_user_append [of "s\<lparr>profile_x := - 1\<rparr>" "\<lparr>profile_x = - 1, request_results_list = []\<rparr>" users]
    by (simp add: found_users_def)
qed

lemma leaderboard_rows_Cons:
  "leaderboard_rows x ((u, p) # users) [] =
     (CHR ''#'' # to_string (x + 1), u, int_string p) # leaderboard_rows (x + 1) users []"
  by (simp, subst leaderboard_rows_append, simp)

lemma leaderboard_rows_length: "length (leaderboard_rows x users []) = length users"
proof (induction users arbitrary: x)
  case Nil
  then show ?case by simp
next
  case (Cons a users)
  obtain u p where a: "a = (u, p)" by (cases a)
  show ?case unfolding a leaderboard_rows_Cons by (simp add: Cons.IH)
qed

lemma leaderboard_rows_nth:
  "i < length users \<Longrightarrow>
   leaderboard_rows x users [] ! i =
     (CHR ''#'' # to_string (x + i + 1), fst (users ! i), int_string (snd (users ! i)))"
proof (induction users arbitrary: x i)
  case Nil
  then show ?case by simp
next
  case (Cons a users)
  obtain u p where a: "a = (u, p)" by (cases a)
  show ?case
  proof (cases i)
    case 0
    then show ?thesis unfolding a leaderboard_rows_Cons by simp
  next
    case (Suc j)
    with Cons.prems have "j < length users" by simp
    from Cons.IH [OF this, of "x + 1"] Suc show ?thesis
      unfolding a leaderboard_rows_Cons by simp
  qed
qed

lemma fold_add_user_prefix:
  "request_results_list (fold add_user users s) =
     request_results_list s @
       drop (length (request_results_list s)) (request_results_list (fold add_user users s))"
  by (rule fold_add_user_append) (rule refl)

lemma fold_add_user_length:
  "length (request_results_list (fold add_user users s)) = length (request_results_list s) + length users"
proof (induction users arbitrary: s)
  case Nil
  then show ?case by simp
next
  case (Cons u users)
  show ?case by (simp add: Cons.IH add_user_list)
qed

lemma fold_add_user_nth:
  "i < length users \<Longrightarrow>
   request_results_list (fold add_user users s) ! (length (request_results_list s) + i) =
     \<lparr>row_id = ''request_result_'' @ int_string (profile_x s + 1 + int i), row_display = ''block'',
      row_name = snd (users ! i), row_button_id = ''final_req_'' @ int_string (fst (users ! i))\<rparr>"
proof (induction users arbitrary: s i)
  case Nil
  then show ?case by simp
next
  case (Cons u users)
  let ?t = "add_user u s"
  have lt: "length (request_results_list ?t) = length (request_results_list s) + 1"
    by (simp add: add_user_list)
  show ?case
  proof (cases i)
    case 0
    have "request_results_list (fold add_user users ?t) ! length (request_results_list s)
        = (request_results_list ?t @
            drop (length (request_results_list ?t)) (request_results_list (fold add_user users ?t)))
          ! length (request_results_list s)"
      by (subst fold_add_user_prefix) (rule refl)
    also have "\<dots> = request_results_list ?t ! length (request_results_list s)"
      by (simp add: nth_append lt)
    also have "\<dots> = \<lparr>row_id = ''request_result_'' @ int_string (profile_x s + 1), row_display = ''block'',
        row_name = snd u, row_button_id = ''final_req_'' @ int_string (fst u)\<rparr>"
      by (simp add: add_user_list)
    finally show ?thesis using 0 by simp
  next
    case (Suc j)
    with Cons.prems have j: "j < length users" by simp
    have e1: "length (request_results_list s) + i = length (request_results_list ?t) + j"
      using Suc lt by simp
    have e2: "profile_x s + 1 + int i = profile_x ?t + 1 + int j"
      using Suc by (simp add: add_user_x)
    have n: "(u # users) ! i = users ! j" using Suc by simp
    have f: "fold add_user (u # users) s = fold add_user users ?t" by simp
    show ?thesis
      unfolding f e1 e2 n by (rule Cons.IH [OF j])
  qed
qed

lemma found_users_length:
  "length (request_results_list (found_users users s)) = length (request_results_list s) + length users"
  by (simp add: found_users_def fold_add_user_length)

lemma found_users_nth:
  assumes "i < length users"
  shows "request_results_list (found_users users s) ! (length (request_results_list s) + i) =
     \<lparr>row_id = ''request_result_'' @ int_string (int i), row_display = ''block'',
      row_name = snd (users ! i), row_button_id = ''final_req_'' @ int_string (fst (users ! i))\<rparr>"
proof -
  from assms have ne: "length users \<noteq> 0" by auto
  from fold_add_user_nth [OF assms, of "s\<lparr>profile_x := - 1\<rparr>"] ne
  show ?thesis by (simp add: found_users_def)
qed


text \<open>
  Claim C6 (as amended).  The dictionary handler clears and fully rebuilds its region: on a
  consistent page it runs to its end and leaves exactly what it leaves on an empty page,
  one box for each entry of the payload, so the region is a function of the payload
  alone.  The leaderboard handler and the user-search handler have no clearing step: each
  keeps the rows already on the page and appends after them exactly one row for each
  entry of the payload, in payload order: for the leaderboard the rank \<open>#i\<close>, the
  username and the points; for the user search the clone \<open>request_result_i\<close> numbered
  from 0, shown, with the username and the button id \<open>final_req_\<close> followed by the
  user id.  The rows appended are a function of the payload alone.
\<close>

theorem list_regions_after_message:
  "(dict_tracked s \<longrightarrow>
      (\<exists>s'. dictionary_results entries s = Returned s' \<and>
            dictionary_results entries dictionary0 = Returned s' \<and>
            current_index s' = length entries \<and>
            length (search_results s') = length entries \<and> dict_tracked s')) \<and>
   leaderboard users rows = rows @ leaderboard users [] \<and>
   length (leaderboard users rows) = length rows + length users \<and>
   (\<forall>i < length users.
      leaderboard users rows ! (length rows + i) =
        (CHR ''#'' # to_string (i + 1), fst (users ! i), int_string (snd (users ! i)))) \<and>
   request_results_list (found_users people p) =
     request_results_list p @
       request_results_list (found_users people \<lparr>profile_x = x0, request_results_list = []\<rparr>) \<and>
   length (request_results_list (found_users people p)) =
     length (request_results_list p) + length people \<and>
   (\<forall>i < length people.
      request_results_list (found_users people p) ! (length (request_results_list p) + i) =
        \<lparr>row_id = ''request_result_'' @ int_string (int i), row_display = ''block'',
         row_name = snd (people ! i), row_button_id = ''final_req_'' @ int_string (fst (people ! i))\<rparr>)"
proof (intro conjI impI allI)
  assume t: "dict_tracked s"
  have t0: "dict_tracked dictionary0"
    by (simp add: dict_tracked_def dictionary0_def box_ids_def)
  from render_from_empty [of entries] obtain s' where
    "render_entries 0 entries dictionary0 = Returned s'" "current_index s' = length entries"
    "length (search_results s') = length entries" "dict_tracked s'"
    by blast
  then show "\<exists>s'. dictionary_results entries s = Returned s' \<and>
            dictionary_results entries dictionary0 = Returned s' \<and>
            current_index s' = length entries \<and>
            length (search_results s') = length entries \<and> dict_tracked s'"
    unfolding dictionary_results_tracked [OF t] dictionary_results_tracked [OF t0] by blast
next
  show a: "leaderboard users rows = rows @ leaderboard users []"
    unfolding leaderboard_def by (rule leaderboard_rows_append)
  show "length (leaderboard users rows) = length rows + length users"
    unfolding a by (simp add: leaderboard_def leaderboard_rows_length)
  fix i assume "i < length users"
  then show "leaderboard users rows ! (length rows + i) =
        (CHR ''#'' # to_string (i + 1), fst (users ! i), int_string (snd (users ! i)))"
    unfolding a using leaderboard_rows_nth [of i users 0] by (simp add: leaderboard_def)
next
  show "request_results_list (found_users people p) =
     request_results_list p @
       request_results_list (found_users people \<lparr>profile_x = x0, request_results_list = []\<rparr>)"
    by (rule found_users_append)
next
  show "length (request_results_list (found_users people p)) =
     length (request_results_list p) + length people"
    by (rule found_users_length)
next
  fix i assume "i < length people"
  then show "request_results_list (found_users people p) ! (length (request_results_list p) + i) =
        \<lparr>row_id = ''request_result_'' @ int_string (int i), row_display = ''block'',
         row_name = snd (people ! i), row_button_id = ''final_req_'' @ int_string (fst (people ! i))\<rparr>"
    by (rule found_users_nth)
qed

theorem list_regions_after_message_witness:
  "dict_tracked (state_of (dictionary_results
      [\<lparr>PrimaryReading = ''neko'', Readings = [''byou''], Meanings = [''cat'', ''feline'']\<rparr>,
       \<lparr>PrimaryReading = ''inu'', Readings = [], Meanings = [''dog'']\<rparr>] dictionary0)) \<and>
   length (search_results (state_of (dictionary_results
      [\<lparr>PrimaryReading = ''neko'', Readings = [''byou''], Meanings = [''cat'', ''feline'']\<rparr>,
       \<lparr>PrimaryReading = ''inu'', Readings = [], Meanings = [''dog'']\<rparr>] dictionary0))) = 2 \<and>
   dictionary_results [\<lparr>PrimaryReading = ''inu'', Readings = [], Meanings = [''dog'']\<rparr>]
     (state_of (dictionary_results
      [\<lparr>PrimaryReading = ''neko'', Readings = [''byou''], Meanings = [''cat'', ''feline'']\<rparr>,
       \<lparr>PrimaryReading = ''inu'', Readings = [], Meanings = [''dog'']\<rparr>] dictionary0))
   = dictionary_results [\<lparr>PrimaryReading = ''inu'', Readings = [], Meanings = [''dog'']\<rparr>] dictionary0 \<and>
   length (search_results (state_of (dictionary_results
     [\<lparr>PrimaryReading = ''inu'', Readings = [], Meanings = [''dog'']\<rparr>]
     (state_of (dictionary_results
      [\<lparr>PrimaryReading = ''neko'', Readings = [''byou''], Meanings = [''cat'', ''feline'']\<rparr>,
       \<lparr>PrimaryReading = ''inu'', Readings = [], Meanings = [''dog'']\<rparr>] dictionary0))))) = 1 \<and>
   length (leaderboard [(''ann'', 5), (''cy'', 3)] [(''#1'', ''bob'', ''9'')]) = 3 \<and>
   leaderboard [(''ann'', 5), (''cy'', 3)] [(''#1'', ''bob'', ''9'')] ! 2 = (''#2'', ''cy'', ''3'') \<and>
   length (request_results_list (found_users [(7, ''ann''), (8, ''cy'')]
     \<lparr>profile_x = 0, request_results_list =
        [\<lparr>row_id = ''request_result_0'', row_display = ''block'', row_name = ''bob'',
          row_button_id = ''final_req_3''\<rparr>]\<rparr>)) = 3 \<and>
   request_results_list (found_users [(7, ''ann''), (8, ''cy'')]
     \<lparr>profile_x = 0, request_results_list =
        [\<lparr>row_id = ''request_result_0'', row_display = ''block'', row_name = ''bob'',
          row_button_id = ''final_req_3''\<rparr>]\<rparr>) ! 2
   = \<lparr>row_id = ''request_result_1'', row_display = ''block'', row_name = ''cy'',
      row_button_id = ''final_req_8''\<rparr>"
proof -
  define sD where "sD = state_of (dictionary_results
      [\<lparr>PrimaryReading = ''neko'', Readings = [''byou''], Meanings = [''cat'', ''feline'']\<rparr>,
       \<lparr>PrimaryReading = ''inu'', Readings = [], Meanings = [''dog'']\<rparr>] dictionary0)"
  define es where "es = [\<lparr>PrimaryReading = ''inu'', Readings = [], Meanings = [''dog'']\<rparr>]"
  define us where "us = [(''ann'', 5 :: int), (''cy'', 3)]"
  define rs where "rs = [(''#1'', ''bob'', ''9'')]"
  define ps where "ps = [(7 :: int, ''ann''), (8, ''cy'')]"
  define pr where "pr = \<lparr>profile_x = 0, request_results_list =
        [\<lparr>row_id = ''request_result_0'', row_display = ''block'', row_name = ''bob'',
          row_button_id = ''final_req_3''\<rparr>]\<rparr>"
  have t: "dict_tracked sD" unfolding sD_def by code_simp
  have n: "length (search_results sD) = 2" unfolding sD_def by code_simp
  have le: "length es = 1" and lu: "length us = 2" "length rs = 1" and lp: "length ps = 2"
    and lr: "length (request_results_list pr) = 1"
    by (simp_all add: es_def us_def rs_def ps_def pr_def)
  have u1: "(CHR ''#'' # to_string (1 + 1), fst (us ! 1), int_string (snd (us ! 1))) = (''#2'', ''cy'', ''3'')"
    unfolding us_def by code_simp
  have p1: "\<lparr>row_id = ''request_result_'' @ int_string (int 1), row_display = ''block'',
         row_name = snd (ps ! 1), row_button_id = ''final_req_'' @ int_string (fst (ps ! 1))\<rparr>
     = \<lparr>row_id = ''request_result_1'', row_display = ''block'', row_name = ''cy'',
      row_button_id = ''final_req_8''\<rparr>"
    unfolding ps_def by code_simp
  note inst = list_regions_after_message [of sD es us rs ps pr 0]
  from inst t obtain s' where a: "dictionary_results es sD = Returned s'"
    and b: "dictionary_results es dictionary0 = Returned s'"
    and c: "length (search_results s') = length es"
    by blast
  from a b have d1: "dictionary_results es sD = dictionary_results es dictionary0" by simp
  from a c le have d2: "length (search_results (state_of (dictionary_results es sD))) = 1" by simp
  from inst have i_len: "length (leaderboard us rs) = length rs + length us" by blast
  from inst have i_nth: "\<forall>i < length us. leaderboard us rs ! (length rs + i) =
        (CHR ''#'' # to_string (i + 1), fst (us ! i), int_string (snd (us ! i)))"
    by blast
  from inst have j_len: "length (request_results_list (found_users ps pr)) =
      length (request_results_list pr) + length ps"
    by blast
  from inst have j_nth: "\<forall>i < length ps.
      request_results_list (found_users ps pr) ! (length (request_results_list pr) + i) =
        \<lparr>row_id = ''request_result_'' @ int_string (int i), row_display = ''block'',
         row_name = snd (ps ! i), row_button_id = ''final_req_'' @ int_string (fst (ps ! i))\<rparr>"
    by blast
  have lt1: "1 < length us" and lt2: "1 < length ps"
    by (simp_all add: lu lp)
  have idx1: "length rs + 1 = 2" and idx2: "length (request_results_list pr) + 1 = 2"
    by (simp_all add: lu lr)
  from i_len have l1: "length (leaderboard us rs) = 3"
    by (simp add: lu)
  have l2: "leaderboard us rs ! 2 = (''#2'', ''cy'', ''3'')"
    using i_nth [rule_format, OF lt1] unfolding idx1 u1 .
  from j_len have f1: "length (request_results_list (found_users ps pr)) = 3"
    by (simp add: lp lr)
  have f2: "request_results_list (found_users ps pr) ! 2 =
      \<lparr>row_id = ''request_result_1'', row_display = ''block'', row_name = ''cy'',
      row_button_id = ''final_req_8''\<rparr>"
    using j_nth [rule_format, OF lt2] unfolding idx2 p1 .
  from t n d1 d2 l1 l2 f1 f2
  have "dict_tracked sD \<and> length (search_results sD) = 2 \<and>
      dictionary_results es sD = dictionary_results es dictionary0 \<and>
      length (search_results (state_of (dictionary_results es sD))) = 1 \<and>
      length (leaderboard us rs) = 3 \<and> leaderboard us rs ! 2 = (''#2'', ''cy'', ''3'') \<and>
      length (request_results_list (found_users ps pr)) = 3 \<and>
      request_results_list (found_users ps pr) ! 2 =
        \<lparr>row_id = ''request_result_1'', row_display = ''block'', row_name = ''cy'',
         row_button_id = ''final_req_8''\<rparr>"
    by blast
  then show ?thesis
    unfolding sD_def es_def us_def rs_def ps_def pr_def .
qed

text \<open>A second leaderboard message, and a second search for users, leave the rows of the
  first render in place.\<close>

theorem rows_retained_counterexample:
  "leaderboard [(''ann'', 5)] (leaderboard [(''bob'', 9)] [])
     = [(''#1'', ''bob'', ''9''), (''#1'', ''ann'', ''5'')] \<and>
   map row_name (request_results_list
     (found_users [(7, ''ann'')] (found_users [(3, ''bob'')] \<lparr>profile_x = 0, request_results_list = []\<rparr>)))
     = [''bob'', ''ann'']"
  by code_simp

end
